theory Spec2Isabelle
  imports Complex_Main
begin

section \<open>ThrashTracker: step sequencer, voice management and MIDI routing\<close>

text \<open>
  A shallow embedding of the sequencing core of ThrashTracker: the pattern grid and the
  playback loop of \<^verbatim>\<open>Sequencer.tsx\<close>, the voice management of
  \<^verbatim>\<open>AudioEngine\<close> and the event handlers of \<^verbatim>\<open>MidiController\<close>.

  JavaScript numbers that the code only uses as whole numbers (MIDI notes, velocities,
  track indices) are \<open>int\<close>; list indices and the voice cursor, which the code only
  ever produces as non-negative whole numbers, are \<open>nat\<close>; durations, the tempo and
  normalised velocities are \<open>real\<close>. Mutable objects are records that each operation
  takes and returns. What the code hands to the synthesis library (a call of
  \<^verbatim>\<open>triggerAttackRelease\<close> on a voice) is recorded in a log kept in the engine
  state, in call order.
\<close>

subsection \<open>Pattern data\<close>

record Step =
  note_s :: "int option"
  velocity :: int
  instrument :: int
  active :: bool

record Pattern =
  id_p :: string
  name_p :: string
  steps :: "Step list list"

definition NUM_STEPS :: nat where
  "NUM_STEPS = 16"

definition NUM_TRACKS :: nat where
  "NUM_TRACKS = 8"

subsection \<open>The audio engine\<close>

text \<open>
  A voice is an object of the synthesis library, created once in \<open>initialize\<close>; its
  identity is the track it was created for and, for the polyphonic kinds, its position in
  the track's voice list.
\<close>

datatype voice =
    FMSynth nat nat
  | Synth nat nat
  | MembraneSynth nat
  | NoiseSynth nat
  | Sampler int

text \<open>
  The first argument of \<^verbatim>\<open>triggerAttackRelease\<close>: the frequency that the library
  computes for a MIDI note (\<^verbatim>\<open>Tone.Frequency(note, 'midi').toFrequency()\<close>, kept
  symbolic), the MIDI note itself (sampler), or nothing (noise voice).
\<close>

datatype pitch = Frequency int | MidiNote int | NoPitch

record trigger =
  tr_voice :: voice
  tr_pitch :: pitch
  tr_duration :: real
  tr_velocity :: real

datatype synthType = fm | subtractive | drum | sampler

datatype error = ToneStartFailed | RangeError | TypeError

text \<open>
  The fields of the class, the state of the library's global transport that \<open>start\<close>,
  \<open>stop\<close> and \<open>setBpm\<close> write, and the log of triggered voices.
\<close>

record AudioEngine =
  initialized :: bool
  fmSynths :: "int \<rightharpoonup> voice list"
  subtractiveSynths :: "int \<rightharpoonup> voice list"
  drumSynths :: "int \<rightharpoonup> voice"
  samplers :: "int \<rightharpoonup> voice"
  voicePool :: "int \<rightharpoonup> nat"
  transport_bpm :: real
  transport_started :: bool
  triggered :: "trigger list"

definition maxVoicesPerTrack :: nat where
  "maxVoicesPerTrack = 4"

text \<open>\<^verbatim>\<open>new AudioEngine()\<close>: the cursor of each of the eight tracks is set to 0. The
  library's transport starts stopped at its default tempo of 120.\<close>

definition constructor :: AudioEngine where
  "constructor =
     \<lparr>initialized = False, fmSynths = Map.empty, subtractiveSynths = Map.empty,
      drumSynths = Map.empty, samplers = Map.empty,
      voicePool = fold (\<lambda>i m. m(int i \<mapsto> 0)) [0..<8] Map.empty,
      transport_bpm = 120, transport_started = False, triggered = []\<rparr>"

text \<open>The body of the loop over the tracks in \<open>initialize\<close>.\<close>

definition initTrack :: "nat \<Rightarrow> AudioEngine \<Rightarrow> AudioEngine" where
  "initTrack track e =
     e\<lparr>fmSynths := (fmSynths e)(int track \<mapsto> map (FMSynth track) [0..<maxVoicesPerTrack]),
       subtractiveSynths :=
         (subtractiveSynths e)(int track \<mapsto> map (Synth track) [0..<maxVoicesPerTrack]),
       drumSynths :=
         (drumSynths e)(int track \<mapsto> (if track < 4 then MembraneSynth track else NoiseSynth track))\<rparr>"

text \<open>
  \<open>initialize\<close>: nothing to do when already initialized; otherwise the library is
  started (\<open>toneOk\<close> tells whether \<^verbatim>\<open>Tone.start()\<close> succeeds; its failure is
  rethrown), the voices of the eight tracks are created and the flag is set.
\<close>

definition initialize :: "bool \<Rightarrow> AudioEngine \<Rightarrow> error + AudioEngine" where
  "initialize toneOk e =
     (if initialized e then Inr e
      else if \<not> toneOk then Inl ToneStartFailed
      else Inr ((fold initTrack [0..<8] e)\<lparr>initialized := True\<rparr>))"

text \<open>
  The assignment \<^verbatim>\<open>Tone.Transport.bpm.value = bpm\<close> in \<open>start\<close> and \<open>setBpm\<close> runs the
  synthesis library's range check on the tempo: for a value outside the library's range (a
  negative tempo, for one) it throws a RangeError and assigns nothing. The library is not
  part of the repository, so its check is the parameter \<open>tempoOk\<close>. Both functions return
  the error thrown, if any, together with the engine as the call leaves it.
\<close>

definition start ::
  "(real \<Rightarrow> bool) \<Rightarrow> bool \<Rightarrow> real \<Rightarrow> AudioEngine \<Rightarrow> error option \<times> AudioEngine" where
  "start tempoOk toneOk bpm e =
     (case (if \<not> initialized e then initialize toneOk e else Inr e) of
        Inl err \<Rightarrow> (Some err, e)
      | Inr e' \<Rightarrow>
          if tempoOk bpm then (None, e'\<lparr>transport_bpm := bpm, transport_started := True\<rparr>)
          else (Some RangeError, e'))"

definition stop :: "AudioEngine \<Rightarrow> AudioEngine" where
  "stop e = e\<lparr>transport_started := False\<rparr>"

definition setBpm :: "(real \<Rightarrow> bool) \<Rightarrow> real \<Rightarrow> AudioEngine \<Rightarrow> error option \<times> AudioEngine" where
  "setBpm tempoOk bpm e =
     (if tempoOk bpm then (None, e\<lparr>transport_bpm := bpm\<rparr>) else (Some RangeError, e))"

text \<open>A range check that rejects exactly the negative tempos; it stands for the library's
  check in the examples below, whose tempos are far from any upper limit.\<close>

definition tempoInRange :: "real \<Rightarrow> bool" where
  "tempoInRange bpm = (0 \<le> bpm)"

text \<open>
  The two polyphonic cases of \<open>triggerNote\<close> (\<^verbatim>\<open>'fm'\<close> and
  \<^verbatim>\<open>'subtractive'\<close>) run the same statements on their own voice lists:
  \<^verbatim>\<open>voices = synths.get(track) || []\<close>,
  \<^verbatim>\<open>voiceIndex = (voicePool.get(track) || 0) % voices.length\<close>,
  \<^verbatim>\<open>voice = voices[voiceIndex]\<close>, and when there is a voice it is triggered and the
  cursor becomes \<^verbatim>\<open>voiceIndex + 1\<close>. With no voices the remainder is NaN,
  \<^verbatim>\<open>voices[NaN]\<close> is undefined and nothing happens.
\<close>

definition triggerPoly ::
  "(int \<rightharpoonup> voice list) \<Rightarrow> AudioEngine \<Rightarrow> int \<Rightarrow> real \<Rightarrow> int \<Rightarrow> real \<Rightarrow> AudioEngine" where
  "triggerPoly synths e note normalizedVelocity track duration =
     (let voices = (case synths track of None \<Rightarrow> [] | Some vs \<Rightarrow> vs);
          cursor = (case voicePool e track of None \<Rightarrow> 0 | Some c \<Rightarrow> c)
      in if voices = [] then e
         else
           let voiceIndex = cursor mod length voices;
               voice = voices ! voiceIndex
           in e\<lparr>triggered := triggered e @
                   [\<lparr>tr_voice = voice, tr_pitch = Frequency note,
                     tr_duration = duration / 1000, tr_velocity = normalizedVelocity\<rparr>],
                 voicePool := (voicePool e)(track \<mapsto> voiceIndex + 1)\<rparr>)"

definition triggerNote ::
  "AudioEngine \<Rightarrow> int \<Rightarrow> int \<Rightarrow> int \<Rightarrow> real \<Rightarrow> synthType \<Rightarrow> AudioEngine" where
  "triggerNote e note vel track duration synthType =
     (if \<not> initialized e then e
      else
        let normalizedVelocity = real_of_int vel / 127 in
        case synthType of
          fm \<Rightarrow> triggerPoly (fmSynths e) e note normalizedVelocity track duration
        | subtractive \<Rightarrow>
            triggerPoly (subtractiveSynths e) e note normalizedVelocity track duration
        | drum \<Rightarrow>
            (case drumSynths e track of
               Some (MembraneSynth k) \<Rightarrow>
                 e\<lparr>triggered := triggered e @
                     [\<lparr>tr_voice = MembraneSynth k, tr_pitch = Frequency note,
                       tr_duration = duration / 1000, tr_velocity = normalizedVelocity\<rparr>]\<rparr>
             | Some (NoiseSynth k) \<Rightarrow>
                 e\<lparr>triggered := triggered e @
                     [\<lparr>tr_voice = NoiseSynth k, tr_pitch = NoPitch,
                       tr_duration = duration / 1000, tr_velocity = normalizedVelocity\<rparr>]\<rparr>
             | _ \<Rightarrow> e)
        | sampler \<Rightarrow>
            (case samplers e track of
               Some v \<Rightarrow>
                 e\<lparr>triggered := triggered e @
                     [\<lparr>tr_voice = v, tr_pitch = MidiNote note,
                       tr_duration = duration / 1000, tr_velocity = normalizedVelocity\<rparr>]\<rparr>
             | None \<Rightarrow> e))"

text \<open>A sequence of \<open>triggerNote\<close> calls, in order: (note, velocity, track, duration,
  kind) each.\<close>

definition triggerNotes ::
  "AudioEngine \<Rightarrow> (int \<times> int \<times> int \<times> real \<times> synthType) list \<Rightarrow> AudioEngine" where
  "triggerNotes e calls =
     foldl (\<lambda>e' (note, vel, track, duration, synthType).
              triggerNote e' note vel track duration synthType) e calls"

text \<open>The engine as the application holds it once mounted: constructed, then
  initialized.\<close>

definition appEngine :: AudioEngine where
  "appEngine = (case initialize True constructor of Inr e \<Rightarrow> e | Inl _ \<Rightarrow> constructor)"

text \<open>A call of a polyphonic kind (\<open>fm\<close> or \<open>subtractive\<close>) on track \<open>t\<close>: the
  calls that reach the statement writing the cursor of \<open>t\<close>.\<close>

definition melodicOn :: "int \<Rightarrow> (int \<times> int \<times> int \<times> real \<times> synthType) \<Rightarrow> bool" where
  "melodicOn t call = (case call of (n, v, tr, d, ty) \<Rightarrow> tr = t \<and> (ty = fm \<or> ty = subtractive))"

subsection \<open>The MIDI controller\<close>

text \<open>
  JavaScript's \<^verbatim>\<open>%\<close> on whole numbers with a non-zero divisor: the result has the sign
  of the dividend. (With a zero divisor the result is NaN; the one such use in the code,
  in \<open>triggerNote\<close>, is modelled there.)
\<close>

definition jsRem :: "int \<Rightarrow> int \<Rightarrow> int" where
  "jsRem a b = sgn a * (\<bar>a\<bar> mod \<bar>b\<bar>)"

text \<open>\<^verbatim>\<open>n.toString(16)\<close> for a non-negative whole number, \<^verbatim>\<open>toUpperCase()\<close> and
  \<^verbatim>\<open>padStart(n, c)\<close>.\<close>

definition hexDigit :: "nat \<Rightarrow> char" where
  "hexDigit d = ''0123456789abcdef'' ! d"

fun toString16 :: "nat \<Rightarrow> string" where
  "toString16 n = (if n < 16 then [hexDigit n] else toString16 (n div 16) @ [hexDigit (n mod 16)])"

definition toUpperCase :: "string \<Rightarrow> string" where
  "toUpperCase s =
     map (\<lambda>c. let k = (of_char c :: nat) in if 97 \<le> k \<and> k \<le> 122 then char_of (k - 32) else c) s"

definition padStart :: "nat \<Rightarrow> char \<Rightarrow> string \<Rightarrow> string" where
  "padStart n c s = replicate (n - length s) c @ s"

text \<open>The template \<^verbatim>\<open>`000x${i.toString(16).toUpperCase().padStart(2, '0')}`\<close>, which both
  the pattern bank and the control-change handler evaluate.\<close>

definition hexId :: "nat \<Rightarrow> string" where
  "hexId i = ''000x'' @ padStart 2 (CHR ''0'') (toUpperCase (toString16 i))"

text \<open>
  The controller's fields. \<open>audioEngine\<close> and \<open>patternCallback\<close> tell whether the field
  is set (not null); the engine itself is passed to the handler that uses it. The calls of
  the registered callback are logged, with their argument, in \<open>callbackCalls\<close>.
\<close>

record MidiController =
  audioEngine :: bool
  midi_initialized :: bool
  connected :: bool
  currentPattern :: string
  patternCallback :: bool
  callbackCalls :: "string list"

definition PATTERN_CC_START :: int where
  "PATTERN_CC_START = 0"

definition PATTERN_CC_END :: int where
  "PATTERN_CC_END = 255"

definition midiConstructor :: MidiController where
  "midiConstructor =
     \<lparr>audioEngine = False, midi_initialized = False, connected = False,
      currentPattern = ''000x01'', patternCallback = False, callbackCalls = []\<rparr>"

text \<open>\<open>initialize\<close> of the controller, when enabling Web MIDI succeeds: \<open>withCallback\<close> tells
  whether a callback was passed, \<open>hasInput\<close> whether an input device was found.\<close>

definition midiInitialize :: "bool \<Rightarrow> bool \<Rightarrow> MidiController \<Rightarrow> MidiController" where
  "midiInitialize withCallback hasInput m =
     (if midi_initialized m then m
      else m\<lparr>audioEngine := True, patternCallback := withCallback,
             connected := (if hasInput then True else connected m), midi_initialized := True\<rparr>)"

text \<open>The local \<open>track\<close> of \<open>handleNoteOn\<close>:
  \<^verbatim>\<open>Math.floor((note - 36) / 12) % 8\<close>.\<close>

definition handleNoteOn_track :: "int \<Rightarrow> int" where
  "handleNoteOn_track note = jsRem ((note - 36) div 12) 8"

definition handleNoteOn :: "MidiController \<Rightarrow> AudioEngine \<Rightarrow> int \<Rightarrow> real \<Rightarrow> AudioEngine" where
  "handleNoteOn m e note vel =
     (if \<not> audioEngine m then e
      else
        let track = handleNoteOn_track note;
            normalizedVelocity = \<lfloor>vel * 127\<rfloor>
        in triggerNote e note normalizedVelocity track 500 fm)"

text \<open>\<open>handleControlChange\<close>; the value of a control change is a non-negative whole
  number.\<close>

definition handleControlChange :: "MidiController \<Rightarrow> int \<Rightarrow> nat \<Rightarrow> MidiController" where
  "handleControlChange m cc val =
     (if PATTERN_CC_START \<le> cc \<and> cc \<le> PATTERN_CC_END then
        let patternIndex = val + 1;
            hexPattern = hexId patternIndex
        in if hexPattern \<noteq> currentPattern m then
             let m' = m\<lparr>currentPattern := hexPattern\<rparr>
             in if patternCallback m' then m'\<lparr>callbackCalls := callbackCalls m' @ [hexPattern]\<rparr>
                else m'
           else m
      else m)"

text \<open>The controller as the application holds it once mounted, with its callback
  registered.\<close>

definition appMidi :: MidiController where
  "appMidi = midiInitialize True True midiConstructor"

subsection \<open>The sequencer\<close>

text \<open>\<^verbatim>\<open>xs.map((x, i) => f(i, x))\<close>.\<close>

definition map_idx :: "(nat \<Rightarrow> 'a \<Rightarrow> 'b) \<Rightarrow> 'a list \<Rightarrow> 'b list" where
  "map_idx f xs = map (\<lambda>(i, x). f i x) (enumerate 0 xs)"

text \<open>The initial value of the \<open>patterns\<close> state: patterns 1 to 255, each with 8 tracks of
  16 empty steps.\<close>

definition defaultPattern :: "nat \<Rightarrow> Pattern" where
  "defaultPattern i =
     \<lparr>id_p = hexId i, name_p = hexId i,
      steps = replicate NUM_TRACKS
                (replicate NUM_STEPS \<lparr>note_s = None, velocity = 100, instrument = 0, active = False\<rparr>)\<rparr>"

definition defaultPatterns :: "Pattern list" where
  "defaultPatterns = map defaultPattern [1..<256]"

text \<open>The component's state that the playback loop and the editing functions use; the
  props (\<open>isPlaying\<close>, \<open>currentPattern\<close>, \<open>bpm\<close>, the engine) are arguments.\<close>

record Sequencer =
  patterns :: "Pattern list"
  currentStep :: nat

definition sequencerInit :: Sequencer where
  "sequencerInit = \<lparr>patterns = defaultPatterns, currentStep = 0\<rparr>"

text \<open>\<^verbatim>\<open>patterns.find(p => p.id === currentPattern) || patterns[0]\<close>; with no patterns at
  all the result is undefined (\<open>None\<close>).\<close>

definition activePattern :: "Pattern list \<Rightarrow> string \<Rightarrow> Pattern option" where
  "activePattern ps cur =
     (case find (\<lambda>p. id_p p = cur) ps of
        Some p \<Rightarrow> Some p
      | None \<Rightarrow> (case ps of [] \<Rightarrow> None | p # _ \<Rightarrow> Some p))"

text \<open>The duration of a sixteenth note in milliseconds. (At a tempo of 0 the code divides
  by zero and gets Infinity, where HOL's division gives 0; no property below depends on the
  value.)\<close>

definition stepDuration :: "real \<Rightarrow> real" where
  "stepDuration bpm = (60 / bpm / 4) * 1000"

text \<open>The playback effect, run when \<open>isPlaying\<close> (or another dependency) changes: when not
  playing, the current step is set to 0; when playing, the interval is installed.\<close>

definition playbackEffect :: "bool \<Rightarrow> Sequencer \<Rightarrow> Sequencer" where
  "playbackEffect isPlaying s = (if \<not> isPlaying then s\<lparr>currentStep := 0\<rparr> else s)"

text \<open>The \<^verbatim>\<open>forEach\<close> over the tracks of the active pattern inside a tick, from track
  index \<open>trackIndex\<close> on. Reading a step beyond the end of a track gives undefined, and
  reading its \<open>active\<close> field throws.\<close>

fun forEachTrack :: "nat \<Rightarrow> real \<Rightarrow> nat \<Rightarrow> Step list list \<Rightarrow> AudioEngine \<Rightarrow> error + AudioEngine" where
  "forEachTrack next dur trackIndex [] e = Inr e"
| "forEachTrack next dur trackIndex (trackSteps # rest) e =
     (if next < length trackSteps then
        let step = trackSteps ! next
        in forEachTrack next dur (Suc trackIndex) rest
             (if active step \<and> note_s step \<noteq> None
              then triggerNote e (the (note_s step)) (velocity step) (int trackIndex) dur fm
              else e)
      else Inl TypeError)"

text \<open>One firing of the interval: the updater passed to \<open>setCurrentStep\<close>.\<close>

definition tick :: "string \<Rightarrow> real \<Rightarrow> Sequencer \<times> AudioEngine \<Rightarrow> error + Sequencer \<times> AudioEngine" where
  "tick cur bpm se =
     (case se of (s, e) \<Rightarrow>
        (case activePattern (patterns s) cur of
           None \<Rightarrow> Inl TypeError
         | Some p \<Rightarrow>
             let next = (currentStep s + 1) mod NUM_STEPS
             in (case forEachTrack next (stepDuration bpm) 0 (steps p) e of
                   Inl err \<Rightarrow> Inl err
                 | Inr e' \<Rightarrow> Inr (s\<lparr>currentStep := next\<rparr>, e'))))"

definition toggleStep :: "string \<Rightarrow> nat \<Rightarrow> nat \<Rightarrow> Pattern list \<Rightarrow> Pattern list" where
  "toggleStep cur track step prev =
     map (\<lambda>pattern.
            if id_p pattern = cur then
              pattern\<lparr>steps :=
                map_idx (\<lambda>tIdx t.
                    if tIdx = track
                    then map_idx (\<lambda>sIdx s. if sIdx = step then s\<lparr>active := \<not> active s\<rparr> else s) t
                    else t)
                  (steps pattern)\<rparr>
            else pattern) prev"

definition setStepNote :: "string \<Rightarrow> nat \<Rightarrow> nat \<Rightarrow> int option \<Rightarrow> Pattern list \<Rightarrow> Pattern list" where
  "setStepNote cur track step note prev =
     map (\<lambda>pattern.
            if id_p pattern = cur then
              pattern\<lparr>steps :=
                map_idx (\<lambda>tIdx t.
                    if tIdx = track
                    then map_idx (\<lambda>sIdx s. if sIdx = step then s\<lparr>note_s := note\<rparr> else s) t
                    else t)
                  (steps pattern)\<rparr>
            else pattern) prev"

text \<open>An engine on which every \<open>fm\<close> trigger on a track 0 to 7 reaches a voice: it is
  initialized and each of these tracks has a non-empty list of \<open>fm\<close> voices, as
  \<open>initialize\<close> leaves it.\<close>

definition engineReady :: "AudioEngine \<Rightarrow> bool" where
  "engineReady e =
     (initialized e \<and>
      list_all (\<lambda>t. case fmSynths e (int t) of None \<Rightarrow> False | Some vs \<Rightarrow> vs \<noteq> []) [0..<8])"

section \<open>Properties\<close>

subsection \<open>Facts about the engine\<close>

lemma triggerNote_keeps:
  "initialized (triggerNote e n v t d k) = initialized e"
  "fmSynths (triggerNote e n v t d k) = fmSynths e"
  "subtractiveSynths (triggerNote e n v t d k) = subtractiveSynths e"
  "drumSynths (triggerNote e n v t d k) = drumSynths e"
  "samplers (triggerNote e n v t d k) = samplers e"
  by (auto simp: triggerNote_def triggerPoly_def Let_def split: synthType.splits option.splits voice.splits)

lemma triggerNotes_snoc:
  "triggerNotes e (cs @ [(n, v, t, d, k)]) = triggerNote (triggerNotes e cs) n v t d k"
  by (simp add: triggerNotes_def)

lemma triggerNotes_Nil: "triggerNotes e [] = e"
  by (simp add: triggerNotes_def)

lemma triggerNotes_keeps:
  "initialized (triggerNotes e cs) = initialized e"
  "fmSynths (triggerNotes e cs) = fmSynths e"
  "subtractiveSynths (triggerNotes e cs) = subtractiveSynths e"
  "drumSynths (triggerNotes e cs) = drumSynths e"
  "samplers (triggerNotes e cs) = samplers e"
  by (induction cs rule: rev_induct; auto simp: triggerNotes_Nil triggerNotes_snoc triggerNote_keeps)+

lemma voicePool_other_track:
  "tr \<noteq> t \<Longrightarrow> voicePool (triggerNote e n v tr d ty) t = voicePool e t"
  by (auto simp: triggerNote_def triggerPoly_def Let_def split: synthType.splits option.splits voice.splits)

lemma voicePool_drum: "voicePool (triggerNote e n v tr d drum) = voicePool e"
  by (auto simp: triggerNote_def Let_def split: option.splits voice.splits)

lemma voicePool_sampler: "voicePool (triggerNote e n v tr d sampler) = voicePool e"
  by (auto simp: triggerNote_def Let_def split: option.splits)

lemma triggerNote_fm:
  assumes "initialized e" "fmSynths e t = Some vs" "vs \<noteq> []" "voicePool e t = Some c"
  shows "triggerNote e n v t d fm =
           e\<lparr>triggered := triggered e @
                [\<lparr>tr_voice = vs ! (c mod length vs), tr_pitch = Frequency n,
                  tr_duration = d / 1000, tr_velocity = real_of_int v / 127\<rparr>],
             voicePool := (voicePool e)(t \<mapsto> c mod length vs + 1)\<rparr>"
  using assms by (simp add: triggerNote_def triggerPoly_def Let_def)

lemma triggerNote_subtractive:
  assumes "initialized e" "subtractiveSynths e t = Some vs" "vs \<noteq> []" "voicePool e t = Some c"
  shows "triggerNote e n v t d subtractive =
           e\<lparr>triggered := triggered e @
                [\<lparr>tr_voice = vs ! (c mod length vs), tr_pitch = Frequency n,
                  tr_duration = d / 1000, tr_velocity = real_of_int v / 127\<rparr>],
             voicePool := (voicePool e)(t \<mapsto> c mod length vs + 1)\<rparr>"
  using assms by (simp add: triggerNote_def triggerPoly_def Let_def)

lemma cursor_next: "0 < N \<Longrightarrow> c' mod N = (c + k) mod N \<Longrightarrow> (0 < k \<longrightarrow> c' = (c + k - 1) mod N + 1) \<Longrightarrow>
  (c' mod N + 1) mod N = (c + Suc k) mod N \<and> c' mod N + 1 = (c + Suc k - 1) mod N + 1"
  for N c c' k :: nat
  by (simp add: mod_Suc_eq)

lemma cursor_after_calls:
  assumes "initialized e" "fmSynths e t = Some fv" "subtractiveSynths e t = Some sv"
    and "length fv = N" "length sv = N" "0 < N" "voicePool e t = Some c"
  shows "\<exists>c'. voicePool (triggerNotes e cs) t = Some c' \<and>
           c' mod N = (c + length (filter (melodicOn t) cs)) mod N \<and>
           (if filter (melodicOn t) cs = [] then c' = c
            else c' = (c + length (filter (melodicOn t) cs) - 1) mod N + 1)"
proof (induction cs rule: rev_induct)
  case Nil
  then show ?case using assms by (simp add: triggerNotes_Nil)
next
  case (snoc call cs)
  obtain n v tr d ty where call: "call = (n, v, tr, d, ty)" by (cases call) auto
  let ?e = "triggerNotes e cs"
  define k where "k = length (filter (melodicOn t) cs)"
  from snoc obtain c' where c': "voicePool ?e t = Some c'" "c' mod N = (c + k) mod N"
    "0 < k \<longrightarrow> c' = (c + k - 1) mod N + 1" "k = 0 \<longrightarrow> c' = c"
    unfolding k_def by (auto split: if_splits)
  have keep: "initialized ?e" "fmSynths ?e t = Some fv" "subtractiveSynths ?e t = Some sv"
    using assms by (simp_all add: triggerNotes_keeps)
  have ne: "fv \<noteq> []" "sv \<noteq> []" using assms by auto
  show ?case
  proof (cases "melodicOn t call")
    case True
    then have tt: "tr = t" "ty = fm \<or> ty = subtractive" by (auto simp: melodicOn_def call)
    have "voicePool (triggerNote ?e n v tr d ty) t = Some (c' mod N + 1)"
      using triggerNote_fm [OF keep(1) keep(2) ne(1) c'(1)]
        triggerNote_subtractive [OF keep(1) keep(3) ne(2) c'(1)] assms(4,5) tt
      by auto
    then have vp: "voicePool (triggerNotes e (cs @ [call])) t = Some (c' mod N + 1)"
      by (simp add: call triggerNotes_snoc)
    have len: "length (filter (melodicOn t) (cs @ [call])) = Suc k"
      "filter (melodicOn t) (cs @ [call]) \<noteq> []"
      using True by (simp_all add: k_def)
    have A: "(c' mod N + 1) mod N = (c + Suc k) mod N"
      and B: "c' mod N + 1 = (c + Suc k - 1) mod N + 1"
      using cursor_next [OF assms(6) c'(2) c'(3)] by blast+
    show ?thesis
    proof (intro exI conjI)
      show "voicePool (triggerNotes e (cs @ [call])) t = Some (c' mod N + 1)" by (fact vp)
      show "(c' mod N + 1) mod N = (c + length (filter (melodicOn t) (cs @ [call]))) mod N"
        unfolding len(1) by (fact A)
      show "if filter (melodicOn t) (cs @ [call]) = [] then c' mod N + 1 = c
            else c' mod N + 1 = (c + length (filter (melodicOn t) (cs @ [call])) - 1) mod N + 1"
        using len(2) B unfolding len(1) by (simp only: if_False)
    qed
  next
    case False
    then have "voicePool (triggerNote ?e n v tr d ty) t = voicePool ?e t"
      by (cases ty) (auto simp: melodicOn_def call voicePool_other_track voicePool_drum voicePool_sampler)
    then have vp: "voicePool (triggerNotes e (cs @ [call])) t = Some c'"
      using c'(1) by (simp add: call triggerNotes_snoc)
    have len: "filter (melodicOn t) (cs @ [call]) = filter (melodicOn t) cs"
      using False by simp
    show ?thesis unfolding vp len using c' unfolding k_def by auto
  qed
qed

lemma poly_run:
  assumes "initialized e" "fmSynths e t = Some fv" "subtractiveSynths e t = Some sv"
    and "length fv = N" "length sv = N" "0 < N" "voicePool e t = Some c"
    and "\<forall>a \<in> set args. snd (snd (snd a)) = fm \<or> snd (snd (snd a)) = subtractive"
  shows "\<exists>evs c'. triggered (triggerNotes e (map (\<lambda>(n, v, d, ty). (n, v, t, d, ty)) args)) =
             triggered e @ evs \<and>
           length evs = length args \<and>
           (\<forall>i < length args.
              tr_voice (evs ! i) =
                (if snd (snd (snd (args ! i))) = fm then fv else sv) ! ((c + i) mod N)) \<and>
           voicePool (triggerNotes e (map (\<lambda>(n, v, d, ty). (n, v, t, d, ty)) args)) t = Some c' \<and>
           c' mod N = (c + length args) mod N"
  using assms(8)
proof (induction args rule: rev_induct)
  case Nil
  then show ?case using assms by (simp add: triggerNotes_Nil)
next
  case (snoc a args)
  obtain n v d ty where a: "a = (n, v, d, ty)" by (cases a) auto
  have ty: "ty = fm \<or> ty = subtractive" using snoc.prems by (simp add: a)
  have prem: "\<forall>a \<in> set args. snd (snd (snd a)) = fm \<or> snd (snd (snd a)) = subtractive"
    using snoc.prems by simp
  let ?e = "triggerNotes e (map (\<lambda>(n, v, d, ty). (n, v, t, d, ty)) args)"
  from snoc.IH [OF prem] obtain evs c' where
    IH: "triggered ?e = triggered e @ evs" "length evs = length args"
      "\<forall>i < length args.
         tr_voice (evs ! i) = (if snd (snd (snd (args ! i))) = fm then fv else sv) ! ((c + i) mod N)"
      "voicePool ?e t = Some c'" "c' mod N = (c + length args) mod N"
    by blast
  have keep: "initialized ?e" "fmSynths ?e t = Some fv" "subtractiveSynths ?e t = Some sv"
    using assms by (simp_all add: triggerNotes_keeps)
  have ne: "fv \<noteq> []" "sv \<noteq> []" using assms(4,5,6) by auto
  let ?ev = "\<lparr>tr_voice = (if ty = fm then fv else sv) ! (c' mod N), tr_pitch = Frequency n,
                  tr_duration = d / 1000, tr_velocity = real_of_int v / 127\<rparr>"
  have step: "triggerNotes e (map (\<lambda>(n, v, d, ty). (n, v, t, d, ty)) (args @ [a])) =
      ?e\<lparr>triggered := triggered ?e @ [?ev], voicePool := (voicePool ?e)(t \<mapsto> c' mod N + 1)\<rparr>"
    using ty triggerNote_fm [OF keep(1,2) ne(1) IH(4), of n v d]
      triggerNote_subtractive [OF keep(1,3) ne(2) IH(4), of n v d] assms(4,5)
    by (auto simp: a triggerNotes_snoc)
  have "\<forall>i < length (args @ [a]).
          tr_voice ((evs @ [?ev]) ! i) =
            (if snd (snd (snd ((args @ [a]) ! i))) = fm then fv else sv) ! ((c + i) mod N)"
    using IH(2,3,5) by (auto simp: nth_append less_Suc_eq a)
  moreover have "(c' mod N + 1) mod N = (c + length (args @ [a])) mod N"
    using IH(5) by (simp add: mod_Suc_eq)
  ultimately show ?case
    unfolding step using IH(1,2) by simp
qed

lemma triggerNote_drum_membrane:
  assumes "initialized e" "drumSynths e t = Some (MembraneSynth k)"
  shows "triggerNote e n v t d drum =
           e\<lparr>triggered := triggered e @
                [\<lparr>tr_voice = MembraneSynth k, tr_pitch = Frequency n,
                  tr_duration = d / 1000, tr_velocity = real_of_int v / 127\<rparr>]\<rparr>"
  using assms by (simp add: triggerNote_def Let_def)

lemma triggerNote_drum_noise:
  assumes "initialized e" "drumSynths e t = Some (NoiseSynth k)"
  shows "triggerNote e n v t d drum =
           e\<lparr>triggered := triggered e @
                [\<lparr>tr_voice = NoiseSynth k, tr_pitch = NoPitch,
                  tr_duration = d / 1000, tr_velocity = real_of_int v / 127\<rparr>]\<rparr>"
  using assms by (simp add: triggerNote_def Let_def)

lemma triggerNote_sampler:
  assumes "initialized e" "samplers e t = Some sm"
  shows "triggerNote e n v t d sampler =
           e\<lparr>triggered := triggered e @
                [\<lparr>tr_voice = sm, tr_pitch = MidiNote n,
                  tr_duration = d / 1000, tr_velocity = real_of_int v / 127\<rparr>]\<rparr>"
  using assms by (simp add: triggerNote_def Let_def)

lemma fold_initTrack_transport:
  "transport_bpm (fold initTrack ts e) = transport_bpm e"
  "transport_started (fold initTrack ts e) = transport_started e"
  by (induction ts arbitrary: e; simp add: initTrack_def)+


subsection \<open>Facts about the sequencer and the controller\<close>

lemma length_map_idx: "length (map_idx f xs) = length xs"
  by (simp add: map_idx_def)

lemma nth_map_idx: "i < length xs \<Longrightarrow> map_idx f xs ! i = f i (xs ! i)"
  by (simp add: map_idx_def nth_enumerate_eq)

lemma map_idx_involution:
  assumes "\<And>i x. f i (f i x) = x"
  shows "map_idx f (map_idx f xs) = xs"
  by (rule nth_equalityI) (simp_all add: length_map_idx nth_map_idx assms)

lemma toggleStep_length: "length (toggleStep cur track step ps) = length ps"
  by (simp add: toggleStep_def)

lemma toggleStep_nth:
  "p < length ps \<Longrightarrow> toggleStep cur track step ps ! p =
     (if id_p (ps ! p) = cur then
        (ps ! p)\<lparr>steps :=
          map_idx (\<lambda>tIdx t.
              if tIdx = track
              then map_idx (\<lambda>sIdx s. if sIdx = step then s\<lparr>active := \<not> active s\<rparr> else s) t
              else t)
            (steps (ps ! p))\<rparr>
      else ps ! p)"
  by (simp add: toggleStep_def)

lemma toggleStep_involution: "toggleStep cur track step (toggleStep cur track step ps) = ps"
proof -
  let ?g = "\<lambda>sIdx s. if sIdx = step then s\<lparr>active := \<not> active s\<rparr> else (s::Step)"
  let ?h = "\<lambda>tIdx t. if tIdx = track then map_idx ?g t else t"
  have g: "\<And>t. map_idx ?g (map_idx ?g t) = t"
    by (rule map_idx_involution) simp
  have h: "\<And>ts. map_idx ?h (map_idx ?h ts) = ts"
    by (rule map_idx_involution) (simp add: g)
  show ?thesis
    unfolding toggleStep_def by (simp add: o_def h map_idI)
qed

lemma handleControlChange_same:
  "hexId (val + 1) = currentPattern m \<Longrightarrow> handleControlChange m cc val = m"
  by (simp add: handleControlChange_def Let_def)

lemma handleControlChange_current:
  "PATTERN_CC_START \<le> cc \<Longrightarrow> cc \<le> PATTERN_CC_END \<Longrightarrow>
   currentPattern (handleControlChange m cc val) = hexId (val + 1)"
  by (simp add: handleControlChange_def Let_def)

lemma handleNoteOn_track_from_36:
  assumes "36 \<le> note"
  shows "handleNoteOn_track note = ((note - 36) div 12) mod 8 \<and>
     0 \<le> handleNoteOn_track note \<and> handleNoteOn_track note \<le> 7"
proof -
  have nn: "0 \<le> (note - 36) div 12" using assms by (simp add: pos_imp_zdiv_nonneg_iff)
  then have "jsRem ((note - 36) div 12) 8 = ((note - 36) div 12) mod 8"
    by (cases "(note - 36) div 12 = 0") (simp_all add: jsRem_def sgn_if)
  moreover have "0 \<le> ((note - 36) div 12) mod 8" "((note - 36) div 12) mod 8 \<le> 7"
    by simp_all
  ultimately show ?thesis by (simp add: handleNoteOn_track_def)
qed

lemma handleNoteOn_track_below_36:
  assumes "0 \<le> note" "note < 36"
  shows "handleNoteOn_track note = (note - 36) div 12 \<and> handleNoteOn_track note < 0"
proof -
  have neg: "(note - 36) div 12 < 0" using assms by (simp add: div_neg_pos_less0)
  have lb: "- 3 \<le> (note - 36) div 12" using assms by presburger
  have "\<bar>(note - 36) div 12\<bar> mod 8 = \<bar>(note - 36) div 12\<bar>"
    using neg lb by simp
  then have "jsRem ((note - 36) div 12) 8 = (note - 36) div 12"
    using neg by (simp add: jsRem_def sgn_if)
  with neg show ?thesis by (simp add: handleNoteOn_track_def)
qed

lemma activePattern_miss:
  assumes "cur \<notin> id_p ` set ps"
  shows "activePattern ps cur = (case ps of [] \<Rightarrow> None | p # _ \<Rightarrow> Some p)"
proof -
  have "find (\<lambda>p. id_p p = cur) ps = None"
    using assms by (auto simp: find_None_iff)
  then show ?thesis by (simp add: activePattern_def)
qed

lemma activePattern_hit:
  "id_p p = cur \<Longrightarrow> activePattern (p # ps) cur = Some p"
  by (simp add: activePattern_def)

lemma defaultPatterns_Cons: "\<exists>ps. defaultPatterns = defaultPattern 1 # ps"
proof -
  have "[1..<256] = 1 # [Suc 1..<256]" by (rule upt_conv_Cons) simp
  then have "defaultPatterns = defaultPattern 1 # map defaultPattern [Suc 1..<256]"
    unfolding defaultPatterns_def by (simp only: list.map)
  then show ?thesis by blast
qed

lemma defaultPatterns_ids: "id_p ` set defaultPatterns = hexId ` {1..<256}"
proof -
  have "set defaultPatterns = defaultPattern ` {1..<256}"
    unfolding defaultPatterns_def by (simp only: set_map set_upt)
  moreover have "\<And>i. id_p (defaultPattern i) = hexId i" by (simp add: defaultPattern_def)
  ultimately show ?thesis by (simp add: image_image)
qed

lemma defaultPattern_1_id: "id_p (defaultPattern 1) = ''000x01''"
  by code_simp

lemma toUpper_hexDigit_nonzero:
  "\<forall>d \<in> set [1..<16]. toUpperCase [hexDigit d] \<noteq> ''0''"
  by code_simp

lemma hexId_not_00:
  assumes "1 \<le> i" "i < 256"
  shows "hexId i \<noteq> ''000x00''"
proof (cases "i < 16")
  case True
  then have "i \<in> set [1..<16]" using assms by simp
  then have "toUpperCase [hexDigit i] \<noteq> ''0''" using toUpper_hexDigit_nonzero by blast
  then show ?thesis using True by (simp add: hexId_def padStart_def toUpperCase_def)
next
  case False
  then have d: "i div 16 \<in> set [1..<16]" using assms by (simp add: less_mult_imp_div_less Suc_le_eq div_greater_zero_iff)
  then have "toUpperCase [hexDigit (i div 16)] \<noteq> ''0''" using toUpper_hexDigit_nonzero by blast
  moreover have "toString16 i = [hexDigit (i div 16), hexDigit (i mod 16)]"
    using False d by (subst toString16.simps) (simp add: toString16.simps [of "i div 16"])
  ultimately show ?thesis by (simp add: hexId_def padStart_def toUpperCase_def)
qed

lemma id_00_not_in_bank: "''000x00'' \<notin> id_p ` set defaultPatterns"
  unfolding defaultPatterns_ids using hexId_not_00 by force

lemma toggleStep_ids: "map id_p (toggleStep cur track step ps) = map id_p ps"
  by (induction ps) (simp_all add: toggleStep_def)

lemma setStepNote_ids: "map id_p (setStepNote cur track step n ps) = map id_p ps"
  by (induction ps) (simp_all add: setStepNote_def)

lemma appEngine_initialized: "initialized appEngine"
  by code_simp

lemma appMidi_fields:
  "audioEngine appMidi" "patternCallback appMidi" "currentPattern appMidi = ''000x01''"
  "callbackCalls appMidi = []"
  by (simp_all add: appMidi_def midiInitialize_def midiConstructor_def)

subsection \<open>Facts about a tick\<close>

lemma engineReady_voices:
  assumes "engineReady e" "i < 8"
  shows "\<exists>vs. fmSynths e (int i) = Some vs \<and> vs \<noteq> []"
proof -
  have "\<forall>t \<in> set [0..<8]. case fmSynths e (int t) of None \<Rightarrow> False | Some vs \<Rightarrow> vs \<noteq> []"
    using assms(1) unfolding engineReady_def list_all_iff by blast
  moreover have "i \<in> set [0..<8]" using assms(2) by (simp only: set_upt) simp
  ultimately show ?thesis by (auto split: option.splits)
qed

lemma triggerNote_fm_event:
  assumes "initialized e" "fmSynths e t = Some vs" "vs \<noteq> []"
  shows "\<exists>voice. voice \<in> set vs \<and>
           triggered (triggerNote e n v t d fm) = triggered e @
             [\<lparr>tr_voice = voice, tr_pitch = Frequency n, tr_duration = d / 1000,
               tr_velocity = real_of_int v / 127\<rparr>]"
  using assms by (simp add: triggerNote_def triggerPoly_def Let_def)

lemma forEachTrack_silent:
  assumes "\<forall>t \<in> set tracks. next < length t \<and> (note_s (t ! next) = None \<or> \<not> active (t ! next))"
  shows "forEachTrack next dur k tracks e = Inr e"
  using assms by (induction tracks arbitrary: k) (auto simp: Let_def)

lemma forEachTrack_events:
  assumes "initialized e" "fmSynths e = fs"
    and "\<forall>i < 8. \<exists>vs. fs (int i) = Some vs \<and> vs \<noteq> []"
    and "k + length tracks \<le> 8" "\<forall>t \<in> set tracks. next < length t"
  shows "\<exists>e' evs. forEachTrack next dur k tracks e = Inr e' \<and>
           triggered e' = triggered e @ evs \<and>
           list_all2 (\<lambda>ev (i, t).
               tr_pitch ev = Frequency (the (note_s (t ! next))) \<and>
               tr_velocity ev = real_of_int (velocity (t ! next)) / 127 \<and>
               tr_duration ev = dur / 1000 \<and>
               (\<exists>vs. fs (int i) = Some vs \<and> tr_voice ev \<in> set vs))
             evs
             (filter (\<lambda>(i, t). active (t ! next) \<and> note_s (t ! next) \<noteq> None) (enumerate k tracks))"
  using assms
proof (induction tracks arbitrary: e k)
  case Nil
  then show ?case by simp
next
  case (Cons t rest)
  have k8: "k < 8" and len: "Suc k + length rest \<le> 8" using Cons.prems(4) by simp_all
  have inb: "next < length t" and rest_inb: "\<forall>t \<in> set rest. next < length t"
    using Cons.prems(5) by simp_all
  from Cons.prems(3) k8 obtain vs where vs: "fs (int k) = Some vs" "vs \<noteq> []" by blast
  show ?case
  proof (cases "active (t ! next) \<and> note_s (t ! next) \<noteq> None")
    case True
    let ?e1 = "triggerNote e (the (note_s (t ! next))) (velocity (t ! next)) (int k) dur fm"
    have vs': "fmSynths e (int k) = Some vs" using vs Cons.prems(2) by simp
    from triggerNote_fm_event [OF Cons.prems(1) vs' vs(2)] obtain voice where
      ev: "voice \<in> set vs"
        "triggered ?e1 = triggered e @
           [\<lparr>tr_voice = voice, tr_pitch = Frequency (the (note_s (t ! next))),
             tr_duration = dur / 1000, tr_velocity = real_of_int (velocity (t ! next)) / 127\<rparr>]"
      by blast
    have keep: "initialized ?e1" "fmSynths ?e1 = fs"
      using Cons.prems(1,2) by (simp_all add: triggerNote_keeps)
    from Cons.IH [OF keep Cons.prems(3) len rest_inb] obtain e' evs where
      IH: "forEachTrack next dur (Suc k) rest ?e1 = Inr e'"
        "triggered e' = triggered ?e1 @ evs"
        "list_all2 (\<lambda>ev (i, t).
               tr_pitch ev = Frequency (the (note_s (t ! next))) \<and>
               tr_velocity ev = real_of_int (velocity (t ! next)) / 127 \<and>
               tr_duration ev = dur / 1000 \<and>
               (\<exists>vs. fs (int i) = Some vs \<and> tr_voice ev \<in> set vs))
             evs
             (filter (\<lambda>(i, t). active (t ! next) \<and> note_s (t ! next) \<noteq> None) (enumerate (Suc k) rest))"
      by blast
    show ?thesis
      apply (rule exI [of _ e'])
      apply (rule exI [of _ "\<lparr>tr_voice = voice, tr_pitch = Frequency (the (note_s (t ! next))),
             tr_duration = dur / 1000, tr_velocity = real_of_int (velocity (t ! next)) / 127\<rparr> # evs"])
      using True inb IH ev vs by (simp add: Let_def)
  next
    case False
    from Cons.IH [OF Cons.prems(1,2,3) len rest_inb] obtain e' evs where
      IH: "forEachTrack next dur (Suc k) rest e = Inr e'"
        "triggered e' = triggered e @ evs"
        "list_all2 (\<lambda>ev (i, t).
               tr_pitch ev = Frequency (the (note_s (t ! next))) \<and>
               tr_velocity ev = real_of_int (velocity (t ! next)) / 127 \<and>
               tr_duration ev = dur / 1000 \<and>
               (\<exists>vs. fs (int i) = Some vs \<and> tr_voice ev \<in> set vs))
             evs
             (filter (\<lambda>(i, t). active (t ! next) \<and> note_s (t ! next) \<noteq> None) (enumerate (Suc k) rest))"
      by blast
    show ?thesis
      apply (rule exI [of _ e'])
      apply (rule exI [of _ evs])
      using False inb IH by (auto simp: Let_def)
  qed
qed

lemma tick_events:
  assumes "engineReady e" "activePattern (patterns s) cur = Some p" "length (steps p) \<le> 8"
    and "\<forall>t \<in> set (steps p). (currentStep s + 1) mod NUM_STEPS < length t"
  shows "\<exists>e' evs.
           tick cur bpm (s, e) = Inr (s\<lparr>currentStep := (currentStep s + 1) mod NUM_STEPS\<rparr>, e') \<and>
           triggered e' = triggered e @ evs \<and>
           list_all2 (\<lambda>ev (i, t).
               tr_pitch ev = Frequency (the (note_s (t ! ((currentStep s + 1) mod NUM_STEPS)))) \<and>
               tr_velocity ev = real_of_int (velocity (t ! ((currentStep s + 1) mod NUM_STEPS))) / 127 \<and>
               tr_duration ev = stepDuration bpm / 1000 \<and>
               (\<exists>vs. fmSynths e (int i) = Some vs \<and> tr_voice ev \<in> set vs))
             evs
             (filter (\<lambda>(i, t). active (t ! ((currentStep s + 1) mod NUM_STEPS)) \<and>
                               note_s (t ! ((currentStep s + 1) mod NUM_STEPS)) \<noteq> None)
                (enumerate 0 (steps p)))"
proof -
  have init: "initialized e" using assms(1) by (simp add: engineReady_def)
  have vs: "\<forall>i < 8. \<exists>vs. fmSynths e (int i) = Some vs \<and> vs \<noteq> []"
    using engineReady_voices [OF assms(1)] by blast
  have len: "0 + length (steps p) \<le> 8" using assms(3) by simp
  from forEachTrack_events [OF init refl vs len assms(4), of "stepDuration bpm"]
  show ?thesis
    using assms(2) by (auto simp: tick_def Let_def)
qed

lemma tick_silent:
  assumes "activePattern (patterns s) cur = Some p"
    and "\<forall>t \<in> set (steps p). (currentStep s + 1) mod NUM_STEPS < length t \<and>
           (note_s (t ! ((currentStep s + 1) mod NUM_STEPS)) = None \<or>
            \<not> active (t ! ((currentStep s + 1) mod NUM_STEPS)))"
  shows "tick cur bpm (s, e) = Inr (s\<lparr>currentStep := (currentStep s + 1) mod NUM_STEPS\<rparr>, e)"
  using assms(1) forEachTrack_silent [OF assms(2)] by (simp add: tick_def Let_def)

lemma appEngine_ready: "engineReady appEngine"
  by code_simp


lemma toggleStep_Cons:
  "id_p p = cur \<Longrightarrow> \<exists>ps'. toggleStep cur track step (p # ps) = hd (toggleStep cur track step [p]) # ps' \<and> id_p (hd (toggleStep cur track step [p])) = cur"
  by (simp add: toggleStep_def)

lemma setStepNote_Cons:
  "id_p p = cur \<Longrightarrow> \<exists>ps'. setStepNote cur track step n (p # ps) = hd (setStepNote cur track step n [p]) # ps' \<and> id_p (hd (setStepNote cur track step n [p])) = cur"
  by (simp add: setStepNote_def)

subsection \<open>The voice cursor\<close>

text \<open>
  C5, as stated, fails: the cursor is stored as \<open>voiceIndex + 1\<close>, not reduced modulo the
  pool size. After four \<open>fm\<close> triggers on track 0 of the mounted engine the stored cursor
  is 4, while 4 mod 4 is 0.
\<close>

theorem cursor_after_four_counterexample:
  "voicePool (triggerNotes appEngine
      [(60, 100, 0, 125, fm), (62, 100, 0, 125, fm), (64, 100, 0, 125, fm), (65, 100, 0, 125, fm)]) 0
     = Some 4 \<and>
   voicePool (triggerNotes appEngine
      [(60, 100, 0, 125, fm), (62, 100, 0, 125, fm), (64, 100, 0, 125, fm), (65, 100, 0, 125, fm)]) 0
     \<noteq> Some (4 mod maxVoicesPerTrack)"
  by code_simp

text \<open>
  C5, amended. On an initialized engine whose track \<open>t\<close> has polyphonic pools of size
  \<open>N\<close> and a cursor of 0, after any sequence of trigger calls (on any tracks, of any
  kinds) of which \<open>k\<close> are polyphonic calls on \<open>t\<close>, the cursor of \<open>t\<close> is
  congruent to \<open>k\<close> modulo \<open>N\<close> and at most \<open>N\<close>: it is 0 when \<open>k = 0\<close> and
  \<open>(k - 1) mod N + 1\<close> otherwise. Calls of the \<open>drum\<close> and \<open>sampler\<close> kinds and calls
  on other tracks do not count: they leave the cursor of \<open>t\<close> alone.
\<close>

theorem cursor_congruent_trigger_count:
  assumes "initialized e" "fmSynths e t = Some fv" "subtractiveSynths e t = Some sv"
    and "length fv = N" "length sv = N" "0 < N" "voicePool e t = Some 0"
  shows "\<exists>c. voicePool (triggerNotes e cs) t = Some c \<and>
           c mod N = length (filter (melodicOn t) cs) mod N \<and> c \<le> N \<and>
           c = (if filter (melodicOn t) cs = [] then 0
                else (length (filter (melodicOn t) cs) - 1) mod N + 1)"
proof -
  from cursor_after_calls [OF assms, of cs] obtain c where
    c: "voicePool (triggerNotes e cs) t = Some c"
      "c mod N = length (filter (melodicOn t) cs) mod N"
      "c = (if filter (melodicOn t) cs = [] then 0
            else (length (filter (melodicOn t) cs) - 1) mod N + 1)"
    by (auto split: if_splits)
  have "(length (filter (melodicOn t) cs) - 1) mod N < N"
    using assms(6) by simp
  then have "c \<le> N" using c(3) by (simp split: if_splits)
  with c show ?thesis by blast
qed

theorem cursor_congruent_trigger_count_witness:
  "initialized appEngine \<and>
   fmSynths appEngine 0 = Some (map (FMSynth 0) [0..<4]) \<and>
   subtractiveSynths appEngine 0 = Some (map (Synth 0) [0..<4]) \<and>
   length (map (FMSynth 0) [0..<4]) = 4 \<and> length (map (Synth 0) [0..<4]) = 4 \<and>
   (0::nat) < 4 \<and> voicePool appEngine 0 = Some 0 \<and>
   voicePool (triggerNotes appEngine
      [(60, 100, 0, 125, fm), (36, 90, 0, 125, drum), (62, 100, 0, 125, subtractive),
       (64, 100, 1, 125, fm), (65, 100, 0, 125, fm), (67, 100, 0, 125, fm),
       (69, 100, 0, 125, fm)]) 0 = Some 1"
proof -
  let ?cs = "[(60, 100, 0, 125, fm), (36, 90, 0, 125, drum), (62, 100, 0, 125, subtractive),
       (64, 100, 1, 125, fm), (65, 100, 0, 125, fm), (67, 100, 0, 125, fm),
       (69, 100, 0, 125, fm)] :: (int \<times> int \<times> int \<times> real \<times> synthType) list"
  have h1: "initialized appEngine" by code_simp
  have h2: "fmSynths appEngine 0 = Some (map (FMSynth 0) [0..<4])" by code_simp
  have h3: "subtractiveSynths appEngine 0 = Some (map (Synth 0) [0..<4])" by code_simp
  have h4: "length (map (FMSynth 0) [0..<4]) = 4" by simp
  have h5: "length (map (Synth 0) [0..<4]) = 4" by simp
  have h6: "(0::nat) < 4" by simp
  have h7: "voicePool appEngine 0 = Some 0" by code_simp
  have k: "filter (melodicOn 0) ?cs =
     [(60, 100, 0, 125, fm), (62, 100, 0, 125, subtractive), (65, 100, 0, 125, fm),
      (67, 100, 0, 125, fm), (69, 100, 0, 125, fm)]"
    by (simp add: melodicOn_def)
  from cursor_congruent_trigger_count [OF h1 h2 h3 h4 h5 h6 h7, of ?cs]
  have "voicePool (triggerNotes appEngine ?cs) 0 = Some 1"
    unfolding k by simp
  with h1 h2 h3 h4 h5 h6 h7 show ?thesis by blast
qed

subsection \<open>Cyclic voice allocation\<close>

text \<open>
  C6, as stated, fails: the \<open>fm\<close> and the \<open>subtractive\<close> calls on a track advance the
  same cursor but take their voices from different lists. In a run of five consecutive
  calls on track 0 of the mounted engine, the first of kind \<open>fm\<close> and the others of kind
  \<open>subtractive\<close>, the first call triggers the \<open>fm\<close> voice in slot 0 and the fifth the
  \<open>subtractive\<close> voice in slot 0: two different voices.
\<close>

theorem mixed_kinds_run_counterexample:
  "map tr_voice (triggered (triggerNotes appEngine
      [(60, 100, 0, 125, fm), (62, 100, 0, 125, subtractive), (64, 100, 0, 125, subtractive),
       (65, 100, 0, 125, subtractive), (67, 100, 0, 125, subtractive)])) =
     [FMSynth 0 0, Synth 0 1, Synth 0 2, Synth 0 3, Synth 0 0] \<and>
   FMSynth 0 0 \<noteq> Synth 0 0"
  by code_simp

text \<open>
  C6, amended. On an initialized engine whose track \<open>t\<close> has an \<open>fm\<close> pool and a
  \<open>subtractive\<close> pool of size \<open>N > 0\<close> each and the cursor \<open>c\<close>: a single \<open>fm\<close> or
  \<open>subtractive\<close> trigger on \<open>t\<close> triggers the voice in slot \<open>c mod N\<close> of the pool of its
  kind and then advances the track's one cursor (to \<open>c mod N + 1\<close>, which is \<open>c + 1\<close>
  modulo \<open>N\<close>). In any run of \<open>N + 1\<close> consecutive triggers on \<open>t\<close> of these two kinds,
  whatever their notes, velocities and durations, each call triggers exactly one voice, the
  \<open>i\<close>-th call (from 0) the voice in slot \<open>(c + i) mod N\<close> of the pool of its kind; so the
  first and the last call use the same slot, and trigger the same voice when they are of
  the same kind. A \<open>drum\<close> trigger always triggers the one drum voice of the track, and a
  \<open>sampler\<close> trigger the one sampler of the track; neither touches the cursor.
\<close>

theorem poly_allocation_cyclic:
  assumes "initialized e" "fmSynths e t = Some fv" "subtractiveSynths e t = Some sv"
    and "length fv = N" "length sv = N" "0 < N" "voicePool e t = Some c"
    and "length args = N + 1"
    and "\<forall>a \<in> set args. snd (snd (snd a)) = fm \<or> snd (snd (snd a)) = subtractive"
  shows "(\<exists>evs. triggered (triggerNotes e (map (\<lambda>(n, v, d, ty). (n, v, t, d, ty)) args)) =
              triggered e @ evs \<and>
            length evs = N + 1 \<and>
            (\<forall>i < N + 1.
               tr_voice (evs ! i) =
                 (if snd (snd (snd (args ! i))) = fm then fv else sv) ! ((c + i) mod N)) \<and>
            (snd (snd (snd (args ! 0))) = snd (snd (snd (args ! N))) \<longrightarrow>
               tr_voice (evs ! 0) = tr_voice (evs ! N))) \<and>
         triggerNote e n v t d fm =
           e\<lparr>triggered := triggered e @
                [\<lparr>tr_voice = fv ! (c mod N), tr_pitch = Frequency n,
                  tr_duration = d / 1000, tr_velocity = real_of_int v / 127\<rparr>],
             voicePool := (voicePool e)(t \<mapsto> c mod N + 1)\<rparr> \<and>
         triggerNote e n v t d subtractive =
           e\<lparr>triggered := triggered e @
                [\<lparr>tr_voice = sv ! (c mod N), tr_pitch = Frequency n,
                  tr_duration = d / 1000, tr_velocity = real_of_int v / 127\<rparr>],
             voicePool := (voicePool e)(t \<mapsto> c mod N + 1)\<rparr> \<and>
         (c mod N + 1) mod N = (c + 1) mod N \<and>
         (\<forall>k. drumSynths e t = Some (MembraneSynth k) \<longrightarrow>
            triggerNote e n v t d drum =
              e\<lparr>triggered := triggered e @
                   [\<lparr>tr_voice = MembraneSynth k, tr_pitch = Frequency n,
                     tr_duration = d / 1000, tr_velocity = real_of_int v / 127\<rparr>]\<rparr>) \<and>
         (\<forall>k. drumSynths e t = Some (NoiseSynth k) \<longrightarrow>
            triggerNote e n v t d drum =
              e\<lparr>triggered := triggered e @
                   [\<lparr>tr_voice = NoiseSynth k, tr_pitch = NoPitch,
                     tr_duration = d / 1000, tr_velocity = real_of_int v / 127\<rparr>]\<rparr>) \<and>
         (\<forall>sm. samplers e t = Some sm \<longrightarrow>
            triggerNote e n v t d sampler =
              e\<lparr>triggered := triggered e @
                   [\<lparr>tr_voice = sm, tr_pitch = MidiNote n,
                     tr_duration = d / 1000, tr_velocity = real_of_int v / 127\<rparr>]\<rparr>)"
proof -
  from poly_run [OF assms(1-7) assms(9)] obtain evs where
    evs: "triggered (triggerNotes e (map (\<lambda>(n, v, d, ty). (n, v, t, d, ty)) args)) = triggered e @ evs"
      "length evs = length args"
      "\<forall>i < length args.
         tr_voice (evs ! i) = (if snd (snd (snd (args ! i))) = fm then fv else sv) ! ((c + i) mod N)"
    by blast
  have first: "tr_voice (evs ! 0) = (if snd (snd (snd (args ! 0))) = fm then fv else sv) ! (c mod N)"
    using evs(3) assms(8) by simp
  have last: "tr_voice (evs ! N) = (if snd (snd (snd (args ! N))) = fm then fv else sv) ! (c mod N)"
    using evs(3) assms(8) by simp
  have same: "snd (snd (snd (args ! 0))) = snd (snd (snd (args ! N))) \<longrightarrow>
      tr_voice (evs ! 0) = tr_voice (evs ! N)"
    using first last by simp
  have run: "\<exists>evs. triggered (triggerNotes e (map (\<lambda>(n, v, d, ty). (n, v, t, d, ty)) args)) =
              triggered e @ evs \<and>
            length evs = N + 1 \<and>
            (\<forall>i < N + 1.
               tr_voice (evs ! i) =
                 (if snd (snd (snd (args ! i))) = fm then fv else sv) ! ((c + i) mod N)) \<and>
            (snd (snd (snd (args ! 0))) = snd (snd (snd (args ! N))) \<longrightarrow>
               tr_voice (evs ! 0) = tr_voice (evs ! N))"
    using evs same assms(8) by auto
  have ne: "fv \<noteq> []" "sv \<noteq> []" using assms(4,5,6) by auto
  have one_fm: "triggerNote e n v t d fm =
           e\<lparr>triggered := triggered e @
                [\<lparr>tr_voice = fv ! (c mod N), tr_pitch = Frequency n,
                  tr_duration = d / 1000, tr_velocity = real_of_int v / 127\<rparr>],
             voicePool := (voicePool e)(t \<mapsto> c mod N + 1)\<rparr>"
    using triggerNote_fm [OF assms(1,2) ne(1) assms(7), of n v d] assms(4) by simp
  have one_sub: "triggerNote e n v t d subtractive =
           e\<lparr>triggered := triggered e @
                [\<lparr>tr_voice = sv ! (c mod N), tr_pitch = Frequency n,
                  tr_duration = d / 1000, tr_velocity = real_of_int v / 127\<rparr>],
             voicePool := (voicePool e)(t \<mapsto> c mod N + 1)\<rparr>"
    using triggerNote_subtractive [OF assms(1,3) ne(2) assms(7), of n v d] assms(5) by simp
  have adv: "(c mod N + 1) mod N = (c + 1) mod N"
    by (simp add: mod_Suc_eq)
  from run one_fm one_sub adv
    triggerNote_drum_membrane [OF assms(1), of t _ n v d]
    triggerNote_drum_noise [OF assms(1), of t _ n v d]
    triggerNote_sampler [OF assms(1), of t _ n v d]
  show ?thesis by blast
qed

theorem poly_allocation_cyclic_witness:
  "map tr_voice (triggered (triggerNotes appEngine
      (map (\<lambda>(n, v, d, ty). (n, v, 2, d, ty))
         [(60, 100, 125, fm), (62, 90, 125, subtractive), (64, 80, 125, fm),
          (65, 70, 125, subtractive), (67, 60, 125, fm)]))) =
     [FMSynth 2 0, Synth 2 1, FMSynth 2 2, Synth 2 3, FMSynth 2 0] \<and>
   voicePool (triggerNote appEngine 60 100 2 125 subtractive) 2 = Some 1 \<and>
   triggered (triggerNote appEngine 36 100 2 125 drum) =
     [\<lparr>tr_voice = MembraneSynth 2, tr_pitch = Frequency 36, tr_duration = 125 / 1000,
       tr_velocity = real_of_int 100 / 127\<rparr>]"
proof -
  let ?args = "[(60, 100, 125, fm), (62, 90, 125, subtractive), (64, 80, 125, fm),
          (65, 70, 125, subtractive), (67, 60, 125, fm)]
      :: (int \<times> int \<times> real \<times> synthType) list"
  let ?fv = "[FMSynth 2 0, FMSynth 2 1, FMSynth 2 2, FMSynth 2 3]"
  let ?sv = "[Synth 2 0, Synth 2 1, Synth 2 2, Synth 2 3]"
  have h1: "initialized appEngine" by code_simp
  have h2: "fmSynths appEngine 2 = Some ?fv" by code_simp
  have h3: "subtractiveSynths appEngine 2 = Some ?sv" by code_simp
  have h4: "length ?fv = 4" "length ?sv = 4" "(0::nat) < 4" by simp_all
  have h7: "voicePool appEngine 2 = Some 0" by code_simp
  have h8: "length ?args = 4 + 1" by simp
  have h9: "\<forall>a \<in> set ?args. snd (snd (snd a)) = fm \<or> snd (snd (snd a)) = subtractive" by simp
  have h10: "triggered appEngine = []" "drumSynths appEngine 2 = Some (MembraneSynth 2)"
    by code_simp+
  note T = poly_allocation_cyclic [OF h1 h2 h3 h4 h7 h8 h9]
  from T [of 60 100 125] obtain evs where evs:
    "triggered (triggerNotes appEngine (map (\<lambda>(n, v, d, ty). (n, v, 2, d, ty)) ?args)) = evs"
    "length evs = 5"
    "\<forall>i < 4 + 1. tr_voice (evs ! i) =
        (if snd (snd (snd (?args ! i))) = fm then ?fv else ?sv) ! ((0 + i) mod 4)"
    unfolding h10 by auto
  from T [of 60 100 125] have one: "voicePool (triggerNote appEngine 60 100 2 125 subtractive) 2 = Some 1"
    by simp
  from T [of 36 100 125] h10(2) have dr: "triggered (triggerNote appEngine 36 100 2 125 drum) =
     [\<lparr>tr_voice = MembraneSynth 2, tr_pitch = Frequency 36, tr_duration = 125 / 1000,
       tr_velocity = real_of_int 100 / 127\<rparr>]"
    by (simp add: h10(1))
  have "map tr_voice evs = [FMSynth 2 0, Synth 2 1, FMSynth 2 2, Synth 2 3, FMSynth 2 0]"
  proof (rule nth_equalityI)
    show "length (map tr_voice evs) = length [FMSynth 2 0, Synth 2 1, FMSynth 2 2, Synth 2 3, FMSynth 2 0]"
      using evs(2) by simp
  next
    fix i assume "i < length (map tr_voice evs)"
    then have i: "i < 5" using evs(2) by simp
    then have "i = 0 \<or> i = 1 \<or> i = 2 \<or> i = 3 \<or> i = 4" by arith
    then show "map tr_voice evs ! i = [FMSynth 2 0, Synth 2 1, FMSynth 2 2, Synth 2 3, FMSynth 2 0] ! i"
      using evs(2,3) i by auto
  qed
  with evs(1) one dr show ?thesis by simp
qed

subsection \<open>Toggling a step\<close>

text \<open>
  C7. Applying \<open>toggleStep\<close> twice with the same arguments gives back the pattern bank it
  started from, so every cell's \<open>active\<close> flag has its original value. A single
  \<open>toggleStep\<close> keeps the shape of the bank and, in every cell, the note, the velocity and
  the instrument; it flips \<open>active\<close> in the addressed cell of the pattern whose id is the
  current pattern, and leaves \<open>active\<close> as it is in every other cell.
\<close>

theorem toggleStep_twice:
  "toggleStep cur track step (toggleStep cur track step ps) = ps \<and>
   length (toggleStep cur track step ps) = length ps \<and>
   (\<forall>p < length ps.
      id_p (toggleStep cur track step ps ! p) = id_p (ps ! p) \<and>
      length (steps (toggleStep cur track step ps ! p)) = length (steps (ps ! p)) \<and>
      (\<forall>t < length (steps (ps ! p)).
         length (steps (toggleStep cur track step ps ! p) ! t) = length (steps (ps ! p) ! t) \<and>
         (\<forall>s < length (steps (ps ! p) ! t).
            note_s (steps (toggleStep cur track step ps ! p) ! t ! s) = note_s (steps (ps ! p) ! t ! s) \<and>
            velocity (steps (toggleStep cur track step ps ! p) ! t ! s) = velocity (steps (ps ! p) ! t ! s) \<and>
            instrument (steps (toggleStep cur track step ps ! p) ! t ! s) = instrument (steps (ps ! p) ! t ! s) \<and>
            active (steps (toggleStep cur track step ps ! p) ! t ! s) =
              (if id_p (ps ! p) = cur \<and> t = track \<and> s = step
               then \<not> active (steps (ps ! p) ! t ! s)
               else active (steps (ps ! p) ! t ! s)))))"
  by (simp add: toggleStep_involution toggleStep_length toggleStep_nth length_map_idx nth_map_idx)

theorem toggleStep_twice_witness:
  "toggleStep ''000x01'' 0 0 (toggleStep ''000x01'' 0 0 defaultPatterns) = defaultPatterns \<and>
   note_s (steps (toggleStep ''000x01'' 0 0 defaultPatterns ! 0) ! 0 ! 0) = None \<and>
   velocity (steps (toggleStep ''000x01'' 0 0 defaultPatterns ! 0) ! 0 ! 0) = 100 \<and>
   active (steps (toggleStep ''000x01'' 0 0 defaultPatterns ! 0) ! 0 ! 0) \<and>
   \<not> active (steps (defaultPatterns ! 0) ! 0 ! 0)"
proof -
  obtain ps where bank: "defaultPatterns = defaultPattern 1 # ps"
    using defaultPatterns_Cons by blast
  have p0: "defaultPatterns ! 0 = defaultPattern 1" "0 < length defaultPatterns"
    by (simp_all add: bank)
  have c: "id_p (defaultPattern 1) = ''000x01''" "0 < length (steps (defaultPattern 1))"
    "0 < length (steps (defaultPattern 1) ! 0)"
    "note_s (steps (defaultPattern 1) ! 0 ! 0) = None"
    "velocity (steps (defaultPattern 1) ! 0 ! 0) = 100"
    "\<not> active (steps (defaultPattern 1) ! 0 ! 0)"
    by code_simp+
  from toggleStep_twice [of "''000x01''" 0 0 defaultPatterns] p0 c
  show ?thesis by simp
qed

subsection \<open>Pattern selection by control change\<close>

text \<open>
  C8. For a control change whose controller number is in the pattern-selection range (0 to
  255, which holds every controller number of the MIDI protocol) and with a callback
  registered: when the computed pattern id equals the current one, the controller's state
  is unchanged and so the callback is not invoked; when it differs, the current pattern
  becomes the computed id and the callback is invoked exactly once, with that id. Sending
  the same control change a second time changes nothing, so the two together invoke the
  callback at most once.
\<close>

theorem control_change_callback_once:
  assumes "PATTERN_CC_START \<le> cc" "cc \<le> PATTERN_CC_END" "patternCallback m"
  shows "(hexId (val + 1) = currentPattern m \<longrightarrow> handleControlChange m cc val = m) \<and>
         (hexId (val + 1) \<noteq> currentPattern m \<longrightarrow>
            handleControlChange m cc val =
              m\<lparr>currentPattern := hexId (val + 1),
                callbackCalls := callbackCalls m @ [hexId (val + 1)]\<rparr>) \<and>
         handleControlChange (handleControlChange m cc val) cc val = handleControlChange m cc val \<and>
         length (callbackCalls (handleControlChange (handleControlChange m cc val) cc val))
           \<le> length (callbackCalls m) + 1"
proof -
  have same: "hexId (val + 1) = currentPattern m \<longrightarrow> handleControlChange m cc val = m"
    by (simp add: handleControlChange_same)
  have diff: "hexId (val + 1) \<noteq> currentPattern m \<longrightarrow>
            handleControlChange m cc val =
              m\<lparr>currentPattern := hexId (val + 1),
                callbackCalls := callbackCalls m @ [hexId (val + 1)]\<rparr>"
    using assms by (simp add: handleControlChange_def Let_def)
  have twice: "handleControlChange (handleControlChange m cc val) cc val = handleControlChange m cc val"
    using handleControlChange_current [OF assms(1,2), of m val]
    by (simp add: handleControlChange_same)
  have "length (callbackCalls (handleControlChange m cc val)) \<le> length (callbackCalls m) + 1"
    using same diff by (cases "hexId (val + 1) = currentPattern m") auto
  with same diff twice show ?thesis by simp
qed

theorem control_change_callback_once_witness:
  "handleControlChange appMidi 7 4 =
     appMidi\<lparr>currentPattern := ''000x05'', callbackCalls := [''000x05'']\<rparr> \<and>
   handleControlChange (handleControlChange appMidi 7 4) 7 4 = handleControlChange appMidi 7 4"
proof -
  have h1: "PATTERN_CC_START \<le> 7" by (simp add: PATTERN_CC_START_def)
  have h2: "7 \<le> PATTERN_CC_END" by (simp add: PATTERN_CC_END_def)
  have id5: "hexId (4 + 1) = ''000x05''" by code_simp
  have ne: "hexId (4 + 1) \<noteq> currentPattern appMidi"
    by (simp only: id5 appMidi_fields) simp
  note T = control_change_callback_once [OF h1 h2 appMidi_fields(2), of 4]
  from T ne have "handleControlChange appMidi 7 4 =
      appMidi\<lparr>currentPattern := hexId (4 + 1),
        callbackCalls := callbackCalls appMidi @ [hexId (4 + 1)]\<rparr>"
    by blast
  then have A: "handleControlChange appMidi 7 4 =
      appMidi\<lparr>currentPattern := ''000x05'', callbackCalls := [''000x05'']\<rparr>"
    by (simp only: id5 appMidi_fields append_Nil)
  from T have B: "handleControlChange (handleControlChange appMidi 7 4) 7 4 =
      handleControlChange appMidi 7 4"
    by blast
  from A B show ?thesis by (rule conjI)
qed

subsection \<open>Tempo\<close>

text \<open>
  C3, as stated, fails: neither \<open>start\<close> nor \<open>setBpm\<close> compares the tempo with 60 and 200.
  Starting the mounted engine at 300 succeeds and sets the transport's tempo to 300, and
  so does \<open>setBpm\<close>; the tempo before was 120.
\<close>

theorem bpm_out_of_range_counterexample:
  "\<not> (60 \<le> (300::real) \<and> (300::real) \<le> 200) \<and>
   start tempoInRange True 300 appEngine =
     (None, appEngine\<lparr>transport_bpm := 300, transport_started := True\<rparr>) \<and>
   setBpm tempoInRange 300 appEngine = (None, appEngine\<lparr>transport_bpm := 300\<rparr>) \<and>
   transport_bpm appEngine = 120 \<and> \<not> transport_started appEngine"
proof -
  have "transport_bpm appEngine = 120" "\<not> transport_started appEngine"
    by code_simp+
  then show ?thesis
    by (simp add: start_def setBpm_def appEngine_initialized tempoInRange_def)
qed

text \<open>
  C3, amended. Neither \<open>start\<close> nor \<open>setBpm\<close> compares the tempo with 60 and 200, and
  there is no invalid-argument error; the one rejection that depends on the tempo is the
  range check of the synthesis library on the assignment, whatever that range is. With a
  tempo the library accepts, \<open>setBpm\<close> sets the transport's tempo to it and changes
  nothing else, and \<open>start\<close> succeeds whenever the engine is initialized or can be, with
  the transport at that tempo and started. With a tempo the library rejects, \<open>setBpm\<close>
  fails with the library's error and leaves the engine as it was, and \<open>start\<close> fails with
  that error and leaves the tempo and the transport as they were; an engine that was not
  initialized has been initialized by then. \<open>start\<close> also fails, with the engine
  unchanged, when the engine cannot be initialized, whatever the tempo.
\<close>

theorem bpm_not_validated:
  "(tempoOk bpm \<longrightarrow> setBpm tempoOk bpm e = (None, e\<lparr>transport_bpm := bpm\<rparr>)) \<and>
   (\<not> tempoOk bpm \<longrightarrow> setBpm tempoOk bpm e = (Some RangeError, e)) \<and>
   (tempoOk bpm \<and> (initialized e \<or> toneOk) \<longrightarrow>
      (\<exists>e'. start tempoOk toneOk bpm e = (None, e') \<and> initialized e' \<and>
            transport_bpm e' = bpm \<and> transport_started e')) \<and>
   (\<not> tempoOk bpm \<and> (initialized e \<or> toneOk) \<longrightarrow>
      (\<exists>e'. start tempoOk toneOk bpm e = (Some RangeError, e') \<and> initialized e' \<and>
            transport_bpm e' = transport_bpm e \<and> transport_started e' = transport_started e \<and>
            (initialized e \<longrightarrow> e' = e))) \<and>
   (\<not> initialized e \<and> \<not> toneOk \<longrightarrow> start tempoOk toneOk bpm e = (Some ToneStartFailed, e))"
  by (auto simp: start_def initialize_def setBpm_def fold_initTrack_transport)

theorem bpm_not_validated_witness:
  "setBpm tempoInRange 59 appEngine = (None, appEngine\<lparr>transport_bpm := 59\<rparr>) \<and>
   setBpm tempoInRange (- 10) appEngine = (Some RangeError, appEngine) \<and>
   (\<exists>e'. start tempoInRange True 250 constructor = (None, e') \<and> initialized e' \<and>
         transport_bpm e' = 250 \<and> transport_started e') \<and>
   start tempoInRange False (- 10) appEngine = (Some RangeError, appEngine) \<and>
   start tempoInRange False 120 constructor = (Some ToneStartFailed, constructor)"
proof -
  have ok: "tempoInRange 59" "tempoInRange 250" "\<not> tempoInRange (- 10)"
    by (simp_all add: tempoInRange_def)
  have nc: "\<not> initialized constructor" by (simp add: constructor_def)
  from bpm_not_validated [of tempoInRange 59 appEngine False]
    bpm_not_validated [of tempoInRange "- 10" appEngine False]
    bpm_not_validated [of tempoInRange 250 constructor True]
    bpm_not_validated [of tempoInRange 120 constructor False]
    ok nc appEngine_initialized
  show ?thesis by auto
qed

subsection \<open>Note to track\<close>

text \<open>
  C2, evaluated at the note 24 with velocity 1: the track computed is -1, since the remainder takes
  the sign of the dividend; the engine has no voices for a track -1, and the note is
  dropped. At the note 36 the track is 0 and the first \<open>fm\<close> voice of track 0 is triggered
  for 500 ms.
\<close>

theorem handleNoteOn_note_24_dropped:
  "handleNoteOn_track 24 = - 1 \<and>
   handleNoteOn appMidi appEngine 24 1 = appEngine \<and>
   triggered (handleNoteOn appMidi appEngine 36 1) =
     [\<lparr>tr_voice = FMSynth 0 0, tr_pitch = Frequency 36, tr_duration = 1 / 2, tr_velocity = 1\<rparr>]"
proof -
  have t: "handleNoteOn_track 24 = - 1" by code_simp
  have v: "fmSynths appEngine (- 1) = None" by code_simp
  have a: "handleNoteOn appMidi appEngine 24 1 = appEngine"
    by (simp add: handleNoteOn_def appMidi_fields t triggerNote_def triggerPoly_def v Let_def)
  have t36: "handleNoteOn_track 36 = 0" by code_simp
  have v0: "fmSynths appEngine 0 = Some [FMSynth 0 0, FMSynth 0 1, FMSynth 0 2, FMSynth 0 3]"
    "voicePool appEngine 0 = Some 0" "triggered appEngine = []"
    by code_simp+
  have b: "triggered (handleNoteOn appMidi appEngine 36 1) =
     [\<lparr>tr_voice = FMSynth 0 0, tr_pitch = Frequency 36, tr_duration = 1 / 2, tr_velocity = 1\<rparr>]"
    by (simp add: handleNoteOn_def appMidi_fields t36 triggerNote_def triggerPoly_def v0
        appEngine_initialized Let_def)
  from t a b show ?thesis by simp
qed

subsection \<open>Looking a pattern up\<close>

text \<open>
  C4, as stated, fails: the lookup has a fallback. Looking up the id 000x00, which no
  pattern of the bank has, returns the first pattern of the bank, 000x01.
\<close>

theorem lookup_unknown_id_counterexample:
  "activePattern defaultPatterns ''000x00'' = Some (defaultPattern 1) \<and>
   id_p (defaultPattern 1) = ''000x01''"
proof -
  obtain ps where bank: "defaultPatterns = defaultPattern 1 # ps"
    using defaultPatterns_Cons by blast
  have "activePattern defaultPatterns ''000x00'' = Some (defaultPattern 1)"
    using activePattern_miss [OF id_00_not_in_bank] by (simp add: bank)
  with defaultPattern_1_id show ?thesis by simp
qed

text \<open>
  C4, amended. For every state of the pattern bank with the ids 000x01 to 000xFF in bank
  order (the initial bank and every bank that \<open>toggleStep\<close> and \<open>setStepNote\<close> make of
  it, since they keep the ids) and every id that is not one of these, the lookup does not
  fail: it returns the first pattern of the bank as it is then, whose id is 000x01.
\<close>

theorem lookup_falls_back_to_first:
  assumes "map id_p ps = map id_p defaultPatterns" "cur \<notin> hexId ` {1..<256}"
  shows "activePattern ps cur = Some (ps ! 0) \<and> id_p (ps ! 0) = ''000x01'' \<and>
         map id_p (toggleStep c track step ps) = map id_p defaultPatterns \<and>
         map id_p (setStepNote c track step n ps) = map id_p defaultPatterns"
proof -
  obtain qs where bank: "defaultPatterns = defaultPattern 1 # qs"
    using defaultPatterns_Cons by blast
  from assms(1) obtain p ps' where ps: "ps = p # ps'" "id_p p = id_p (defaultPattern 1)"
    unfolding bank by (cases ps) auto
  have "id_p ` set ps = set (map id_p ps)" by simp
  also have "\<dots> = id_p ` set defaultPatterns" unfolding assms(1) by simp
  finally have "cur \<notin> id_p ` set ps"
    using assms(2) by (simp only: defaultPatterns_ids not_False_eq_True)
  from activePattern_miss [OF this]
  have "activePattern ps cur = Some (ps ! 0)" by (simp add: ps(1))
  moreover have "id_p (ps ! 0) = ''000x01''"
    using ps defaultPattern_1_id by simp
  ultimately show ?thesis
    using assms(1) by (simp add: toggleStep_ids setStepNote_ids)
qed

theorem lookup_falls_back_to_first_witness:
  "map id_p (toggleStep ''000x01'' 0 0 defaultPatterns) = map id_p defaultPatterns \<and>
   ''000x00'' \<notin> hexId ` {1..<256} \<and>
   activePattern (toggleStep ''000x01'' 0 0 defaultPatterns) ''000x00'' =
     Some (toggleStep ''000x01'' 0 0 defaultPatterns ! 0) \<and>
   id_p (toggleStep ''000x01'' 0 0 defaultPatterns ! 0) = ''000x01'' \<and>
   active (steps (toggleStep ''000x01'' 0 0 defaultPatterns ! 0) ! 0 ! 0) \<and>
   \<not> active (steps (defaultPattern 1) ! 0 ! 0)"
proof -
  have h1: "map id_p (toggleStep ''000x01'' 0 0 defaultPatterns) = map id_p defaultPatterns"
    by (rule toggleStep_ids)
  have h2: "''000x00'' \<notin> hexId ` {1..<256}"
    using hexId_not_00 by force
  obtain qs where bank: "defaultPatterns = defaultPattern 1 # qs"
    using defaultPatterns_Cons by blast
  from toggleStep_Cons [OF defaultPattern_1_id, of 0 0 qs] obtain qs1 where
    t1: "toggleStep ''000x01'' 0 0 defaultPatterns = hd (toggleStep ''000x01'' 0 0 [defaultPattern 1]) # qs1"
    unfolding bank by blast
  have cell: "active (steps (hd (toggleStep ''000x01'' 0 0 [defaultPattern 1])) ! 0 ! 0)"
    "\<not> active (steps (defaultPattern 1) ! 0 ! 0)"
    by code_simp+
  have edited: "active (steps (toggleStep ''000x01'' 0 0 defaultPatterns ! 0) ! 0 ! 0)"
    using cell(1) by (simp add: t1)
  from lookup_falls_back_to_first [OF h1 h2] h1 h2 edited cell(2)
  show ?thesis by simp
qed

subsection \<open>Stop, restart and the first tick\<close>

text \<open>
  C1, as stated, fails in its second half: a tick first advances the step and then fires
  the row of the new step, so the first tick after a restart fires the row of step index
  1. With only the cell of track 0 at step index 0 active (note 60) in pattern 000x01, and
  playback stopped at step 5 and restarted, the first tick triggers nothing and leaves
  the current step at 1.
\<close>

theorem stop_restart_first_tick_counterexample:
  "tick ''000x01'' 120
     (playbackEffect True (playbackEffect False
        \<lparr>patterns = setStepNote ''000x01'' 0 0 (Some 60) (toggleStep ''000x01'' 0 0 defaultPatterns),
         currentStep = 5\<rparr>), appEngine)
   = Inr (\<lparr>patterns = setStepNote ''000x01'' 0 0 (Some 60) (toggleStep ''000x01'' 0 0 defaultPatterns),
           currentStep = 1\<rparr>, appEngine) \<and>
   id_p (setStepNote ''000x01'' 0 0 (Some 60) (toggleStep ''000x01'' 0 0 defaultPatterns) ! 0)
     = ''000x01'' \<and>
   active (steps (setStepNote ''000x01'' 0 0 (Some 60) (toggleStep ''000x01'' 0 0 defaultPatterns) ! 0)
             ! 0 ! 0) \<and>
   note_s (steps (setStepNote ''000x01'' 0 0 (Some 60) (toggleStep ''000x01'' 0 0 defaultPatterns) ! 0)
             ! 0 ! 0) = Some 60"
proof -
  let ?P = "hd (setStepNote ''000x01'' 0 0 (Some 60) [hd (toggleStep ''000x01'' 0 0 [defaultPattern 1])])"
  let ?pats = "setStepNote ''000x01'' 0 0 (Some 60) (toggleStep ''000x01'' 0 0 defaultPatterns)"
  obtain ps where bank: "defaultPatterns = defaultPattern 1 # ps"
    using defaultPatterns_Cons by blast
  from toggleStep_Cons [OF defaultPattern_1_id, of 0 0 ps] obtain ps1 where
    t1: "toggleStep ''000x01'' 0 0 defaultPatterns = hd (toggleStep ''000x01'' 0 0 [defaultPattern 1]) # ps1"
      "id_p (hd (toggleStep ''000x01'' 0 0 [defaultPattern 1])) = ''000x01''"
    unfolding bank by blast
  from setStepNote_Cons [OF t1(2), of 0 0 "Some 60" ps1] obtain ps2 where
    t2: "?pats = ?P # ps2" "id_p ?P = ''000x01''"
    unfolding t1(1) by blast
  have ap: "activePattern ?pats ''000x01'' = Some ?P"
    unfolding t2(1) using t2(2) by (rule activePattern_hit)
  have cell: "active (steps ?P ! 0 ! 0)" "note_s (steps ?P ! 0 ! 0) = Some 60"
    by code_simp+
  have quiet: "\<forall>t \<in> set (steps ?P). (0 + 1) mod NUM_STEPS < length t \<and>
           (note_s (t ! ((0 + 1) mod NUM_STEPS)) = None \<or> \<not> active (t ! ((0 + 1) mod NUM_STEPS)))"
    by code_simp
  have "tick ''000x01'' 120 (\<lparr>patterns = ?pats, currentStep = 0\<rparr>, appEngine) =
      Inr (\<lparr>patterns = ?pats, currentStep = 0\<rparr>\<lparr>currentStep := (0 + 1) mod NUM_STEPS\<rparr>, appEngine)"
    using tick_silent [of "\<lparr>patterns = ?pats, currentStep = 0\<rparr>" "''000x01''" ?P 120 appEngine] ap quiet
    by simp
  then have "tick ''000x01'' 120 (playbackEffect True (playbackEffect False \<lparr>patterns = ?pats, currentStep = 5\<rparr>), appEngine)
      = Inr (\<lparr>patterns = ?pats, currentStep = 1\<rparr>, appEngine)"
    by (simp add: playbackEffect_def NUM_STEPS_def)
  moreover have "?pats ! 0 = ?P" by (simp add: t2(1))
  ultimately show ?thesis using cell t2(2) by simp
qed


text \<open>
  C1, amended. Stopping resets the current step to 0, whatever it was. After a stop and a
  restart the first tick, on a ready engine and a pattern of at most eight tracks with
  more than one step each, advances the current step from 0 to 1 and triggers, in track
  order, exactly the cells at step index 1 that are active and have a note: one voice of
  the cell's track for each, with the cell's note and velocity and the step's duration.
  The step index that was current before the stop plays no part.
\<close>

theorem stop_restart_first_tick:
  assumes "engineReady e" "activePattern (patterns s) cur = Some p" "length (steps p) \<le> 8"
    and "\<forall>t \<in> set (steps p). 1 < length t"
  shows "currentStep (playbackEffect False s) = 0 \<and>
         (\<exists>e' evs.
            tick cur bpm (playbackEffect True (playbackEffect False s), e) =
              Inr (s\<lparr>currentStep := 1\<rparr>, e') \<and>
            triggered e' = triggered e @ evs \<and>
            list_all2 (\<lambda>ev (i, t).
                tr_pitch ev = Frequency (the (note_s (t ! 1))) \<and>
                tr_velocity ev = real_of_int (velocity (t ! 1)) / 127 \<and>
                tr_duration ev = stepDuration bpm / 1000 \<and>
                (\<exists>vs. fmSynths e (int i) = Some vs \<and> tr_voice ev \<in> set vs))
              evs
              (filter (\<lambda>(i, t). active (t ! 1) \<and> note_s (t ! 1) \<noteq> None) (enumerate 0 (steps p))))"
proof -
  let ?s0 = "s\<lparr>currentStep := 0\<rparr>"
  have s0: "playbackEffect True (playbackEffect False s) = ?s0"
    by (simp add: playbackEffect_def)
  have nx: "(currentStep ?s0 + 1) mod NUM_STEPS = 1" by (simp add: NUM_STEPS_def)
  have ap: "activePattern (patterns ?s0) cur = Some p" using assms(2) by simp
  have inb: "\<forall>t \<in> set (steps p). (currentStep ?s0 + 1) mod NUM_STEPS < length t"
    unfolding nx using assms(4) .
  have upd: "?s0\<lparr>currentStep := 1\<rparr> = s\<lparr>currentStep := 1\<rparr>" by simp
  from tick_events [OF assms(1) ap assms(3) inb, of bpm]
  show ?thesis unfolding nx s0 upd by (simp add: playbackEffect_def)
qed

theorem stop_restart_first_tick_witness:
  "\<exists>e'. tick ''000x01'' 120
           (playbackEffect True (playbackEffect False
              \<lparr>patterns = setStepNote ''000x01'' 0 1 (Some 64) (toggleStep ''000x01'' 0 1
                   (setStepNote ''000x01'' 0 0 (Some 60) (toggleStep ''000x01'' 0 0 defaultPatterns))),
               currentStep = 5\<rparr>), appEngine)
         = Inr (\<lparr>patterns = setStepNote ''000x01'' 0 1 (Some 64) (toggleStep ''000x01'' 0 1
                   (setStepNote ''000x01'' 0 0 (Some 60) (toggleStep ''000x01'' 0 0 defaultPatterns))),
                 currentStep = 1\<rparr>, e') \<and>
        map tr_pitch (triggered e') = [Frequency 64]"
proof -
  let ?P = "hd (setStepNote ''000x01'' 0 1 (Some 64) [hd (toggleStep ''000x01'' 0 1
               [hd (setStepNote ''000x01'' 0 0 (Some 60)
               [hd (toggleStep ''000x01'' 0 0 [defaultPattern 1])])])])"
  let ?pats = "setStepNote ''000x01'' 0 1 (Some 64) (toggleStep ''000x01'' 0 1
                   (setStepNote ''000x01'' 0 0 (Some 60) (toggleStep ''000x01'' 0 0 defaultPatterns)))"
  let ?s = "\<lparr>patterns = ?pats, currentStep = 5\<rparr>"
  obtain ps where bank: "defaultPatterns = defaultPattern 1 # ps"
    using defaultPatterns_Cons by blast
  from toggleStep_Cons [OF defaultPattern_1_id, of 0 0 ps] obtain ps1 where
    t1: "toggleStep ''000x01'' 0 0 defaultPatterns = hd (toggleStep ''000x01'' 0 0 [defaultPattern 1]) # ps1"
      "id_p (hd (toggleStep ''000x01'' 0 0 [defaultPattern 1])) = ''000x01''"
    unfolding bank by blast
  from setStepNote_Cons [OF t1(2), of 0 0 "Some 60" ps1] obtain ps2 where
    t2: "setStepNote ''000x01'' 0 0 (Some 60) (toggleStep ''000x01'' 0 0 defaultPatterns) =
           hd (setStepNote ''000x01'' 0 0 (Some 60) [hd (toggleStep ''000x01'' 0 0 [defaultPattern 1])]) # ps2"
      "id_p (hd (setStepNote ''000x01'' 0 0 (Some 60) [hd (toggleStep ''000x01'' 0 0 [defaultPattern 1])])) = ''000x01''"
    unfolding t1(1) by blast
  from toggleStep_Cons [OF t2(2), of 0 1 ps2] obtain ps3 where
    t3: "toggleStep ''000x01'' 0 1
           (setStepNote ''000x01'' 0 0 (Some 60) (toggleStep ''000x01'' 0 0 defaultPatterns)) =
         hd (toggleStep ''000x01'' 0 1 [hd (setStepNote ''000x01'' 0 0 (Some 60)
               [hd (toggleStep ''000x01'' 0 0 [defaultPattern 1])])]) # ps3"
      "id_p (hd (toggleStep ''000x01'' 0 1 [hd (setStepNote ''000x01'' 0 0 (Some 60)
               [hd (toggleStep ''000x01'' 0 0 [defaultPattern 1])])])) = ''000x01''"
    unfolding t2(1) by blast
  from setStepNote_Cons [OF t3(2), of 0 1 "Some 64" ps3] obtain ps4 where
    t4: "?pats = ?P # ps4" "id_p ?P = ''000x01''"
    unfolding t3(1) by blast
  have ap: "activePattern (patterns ?s) ''000x01'' = Some ?P"
    unfolding t4(1) using t4(2) by (simp add: activePattern_hit)
  have h3: "length (steps ?P) \<le> 8" by code_simp
  have h4: "\<forall>t \<in> set (steps ?P). 1 < length t" by code_simp
  have fl: "filter (\<lambda>(i, t). active (t ! 1) \<and> note_s (t ! 1) \<noteq> None) (enumerate 0 (steps ?P))
      = [(0, steps ?P ! 0)]"
    by code_simp
  have cells: "note_s (steps ?P ! 0 ! 1) = Some 64" "triggered appEngine = []"
    by code_simp+
  from stop_restart_first_tick [OF appEngine_ready ap h3 h4, of 120]
  obtain e' evs where
    r: "tick ''000x01'' 120 (playbackEffect True (playbackEffect False ?s), appEngine) =
          Inr (?s\<lparr>currentStep := 1\<rparr>, e')"
      "triggered e' = triggered appEngine @ evs"
      "list_all2 (\<lambda>ev (i, t).
               tr_pitch ev = Frequency (the (note_s (t ! 1))) \<and>
               tr_velocity ev = real_of_int (velocity (t ! 1)) / 127 \<and>
               tr_duration ev = stepDuration 120 / 1000 \<and>
               (\<exists>vs. fmSynths appEngine (int i) = Some vs \<and> tr_voice ev \<in> set vs))
             evs [(0, steps ?P ! 0)]"
    unfolding fl by blast
  from r(3) cells(1) have "map tr_pitch evs = [Frequency 64]"
    by (auto simp: list_all2_Cons2)
  with r(1,2) cells show ?thesis by simp
qed


subsection \<open>Cells without a pitch\<close>

text \<open>
  C10. On a tick, on a ready engine and a pattern of at most eight tracks that all have
  the new step, the voices triggered are, in track order, exactly one for each cell of the
  new step that is active and has a note, with that cell's note and velocity; a cell that
  is active but has no note triggers nothing. In particular, when no cell of the new step
  has a note, the tick leaves the engine exactly as it was, whatever the cells' \<open>active\<close>
  flags.
\<close>

theorem tick_fires_only_pitched_active_cells:
  assumes "engineReady e" "activePattern (patterns s) cur = Some p" "length (steps p) \<le> 8"
    and "\<forall>t \<in> set (steps p). (currentStep s + 1) mod NUM_STEPS < length t"
  shows "(\<exists>e' evs.
           tick cur bpm (s, e) = Inr (s\<lparr>currentStep := (currentStep s + 1) mod NUM_STEPS\<rparr>, e') \<and>
           triggered e' = triggered e @ evs \<and>
           list_all2 (\<lambda>ev (i, t).
               tr_pitch ev = Frequency (the (note_s (t ! ((currentStep s + 1) mod NUM_STEPS)))) \<and>
               tr_velocity ev = real_of_int (velocity (t ! ((currentStep s + 1) mod NUM_STEPS))) / 127 \<and>
               tr_duration ev = stepDuration bpm / 1000 \<and>
               (\<exists>vs. fmSynths e (int i) = Some vs \<and> tr_voice ev \<in> set vs))
             evs
             (filter (\<lambda>(i, t). active (t ! ((currentStep s + 1) mod NUM_STEPS)) \<and>
                               note_s (t ! ((currentStep s + 1) mod NUM_STEPS)) \<noteq> None)
                (enumerate 0 (steps p)))) \<and>
         ((\<forall>t \<in> set (steps p). note_s (t ! ((currentStep s + 1) mod NUM_STEPS)) = None) \<longrightarrow>
            tick cur bpm (s, e) = Inr (s\<lparr>currentStep := (currentStep s + 1) mod NUM_STEPS\<rparr>, e))"
proof -
  have "(\<forall>t \<in> set (steps p). note_s (t ! ((currentStep s + 1) mod NUM_STEPS)) = None) \<longrightarrow>
            tick cur bpm (s, e) = Inr (s\<lparr>currentStep := (currentStep s + 1) mod NUM_STEPS\<rparr>, e)"
    using tick_silent [OF assms(2), of bpm e] assms(4) by blast
  with tick_events [OF assms, of bpm] show ?thesis by blast
qed

theorem tick_fires_only_pitched_active_cells_witness:
  "\<exists>e'. tick ''000x01'' 120
           (\<lparr>patterns = toggleStep ''000x01'' 1 0 (setStepNote ''000x01'' 0 0 (Some 60)
                          (toggleStep ''000x01'' 0 0 defaultPatterns)),
             currentStep = 15\<rparr>, appEngine)
         = Inr (\<lparr>patterns = toggleStep ''000x01'' 1 0 (setStepNote ''000x01'' 0 0 (Some 60)
                          (toggleStep ''000x01'' 0 0 defaultPatterns)),
                 currentStep = 0\<rparr>, e') \<and>
        map tr_pitch (triggered e') = [Frequency 60] \<and>
        map_option (\<lambda>p. (active (steps p ! 1 ! 0), note_s (steps p ! 1 ! 0)))
          (activePattern (toggleStep ''000x01'' 1 0 (setStepNote ''000x01'' 0 0 (Some 60)
                          (toggleStep ''000x01'' 0 0 defaultPatterns))) ''000x01'')
        = Some (True, None)"
proof -
  let ?P = "hd (toggleStep ''000x01'' 1 0 [hd (setStepNote ''000x01'' 0 0 (Some 60)
               [hd (toggleStep ''000x01'' 0 0 [defaultPattern 1])])])"
  let ?pats = "toggleStep ''000x01'' 1 0 (setStepNote ''000x01'' 0 0 (Some 60)
                          (toggleStep ''000x01'' 0 0 defaultPatterns))"
  let ?s = "\<lparr>patterns = ?pats, currentStep = 15\<rparr>"
  obtain ps where bank: "defaultPatterns = defaultPattern 1 # ps"
    using defaultPatterns_Cons by blast
  from toggleStep_Cons [OF defaultPattern_1_id, of 0 0 ps] obtain ps1 where
    t1: "toggleStep ''000x01'' 0 0 defaultPatterns = hd (toggleStep ''000x01'' 0 0 [defaultPattern 1]) # ps1"
      "id_p (hd (toggleStep ''000x01'' 0 0 [defaultPattern 1])) = ''000x01''"
    unfolding bank by blast
  from setStepNote_Cons [OF t1(2), of 0 0 "Some 60" ps1] obtain ps2 where
    t2: "setStepNote ''000x01'' 0 0 (Some 60) (toggleStep ''000x01'' 0 0 defaultPatterns) =
           hd (setStepNote ''000x01'' 0 0 (Some 60) [hd (toggleStep ''000x01'' 0 0 [defaultPattern 1])]) # ps2"
      "id_p (hd (setStepNote ''000x01'' 0 0 (Some 60) [hd (toggleStep ''000x01'' 0 0 [defaultPattern 1])])) = ''000x01''"
    unfolding t1(1) by blast
  from toggleStep_Cons [OF t2(2), of 1 0 ps2] obtain ps3 where
    t3: "?pats = ?P # ps3" "id_p ?P = ''000x01''"
    unfolding t2(1) by blast
  have ap: "activePattern ?pats ''000x01'' = Some ?P"
    unfolding t3(1) using t3(2) by (rule activePattern_hit)
  have ap': "activePattern (patterns ?s) ''000x01'' = Some ?P" using ap by simp
  have nx: "(currentStep ?s + 1) mod NUM_STEPS = 0" by (simp add: NUM_STEPS_def)
  have h3: "length (steps ?P) \<le> 8" by code_simp
  have h4: "\<forall>t \<in> set (steps ?P). (currentStep ?s + 1) mod NUM_STEPS < length t"
    unfolding nx by code_simp
  have fl: "filter (\<lambda>(i, t). active (t ! 0) \<and> note_s (t ! 0) \<noteq> None) (enumerate 0 (steps ?P))
      = [(0, steps ?P ! 0)]"
    by code_simp
  have cells: "note_s (steps ?P ! 0 ! 0) = Some 60" "active (steps ?P ! 1 ! 0)"
    "note_s (steps ?P ! 1 ! 0) = None" "triggered appEngine = []"
    by code_simp+
  from tick_fires_only_pitched_active_cells [OF appEngine_ready ap' h3 h4, of 120]
  obtain e' evs where
    r: "tick ''000x01'' 120 (?s, appEngine) = Inr (?s\<lparr>currentStep := 0\<rparr>, e')"
      "triggered e' = triggered appEngine @ evs"
      "list_all2 (\<lambda>ev (i, t).
               tr_pitch ev = Frequency (the (note_s (t ! 0))) \<and>
               tr_velocity ev = real_of_int (velocity (t ! 0)) / 127 \<and>
               tr_duration ev = stepDuration 120 / 1000 \<and>
               (\<exists>vs. fmSynths appEngine (int i) = Some vs \<and> tr_voice ev \<in> set vs))
             evs [(0, steps ?P ! 0)]"
    unfolding nx fl by blast
  from r(3) cells(1) have "map tr_pitch evs = [Frequency 60]"
    by (auto simp: list_all2_Cons2)
  with r(1,2) cells ap show ?thesis by simp
qed


subsection \<open>Triggering before initialization\<close>

text \<open>
  C9. A trigger call on an engine that is not initialized returns (the model is a total
  function with no error result) and leaves the whole engine state as it was: no voice is
  triggered, and every cursor and every other field is unchanged.
\<close>

theorem triggerNote_uninitialized_noop:
  "\<not> initialized e \<Longrightarrow> triggerNote e note vel track duration synthType = e"
  by (simp add: triggerNote_def)

theorem triggerNote_uninitialized_noop_witness:
  "\<not> initialized constructor \<and> triggerNote constructor 60 100 0 125 fm = constructor"
proof -
  have h: "\<not> initialized constructor" by (simp add: constructor_def)
  from triggerNote_uninitialized_noop [OF h] h show ?thesis by simp
qed

end
